theory Spec2Isabelle
  imports Complex_Main
begin

section \<open>JavaScript numbers\<close>

text \<open>
  Every number of the two source files is a JavaScript \<open>number\<close>. The claims turn on what
  the code does when it divides by zero, so the three special values of such a number are part
  of the model: \<open>NaN\<close>, \<open>+Infinity\<close> and \<open>-Infinity\<close>. A finite value is an exact real:
  rounding and overflow of finite values are not modelled, and there is one zero (a positive
  value divided by zero is \<open>+Infinity\<close>, as it is for the zero that \<open>x - x\<close> and an
  integer literal produce).

  Where the code rounds, the model's value can differ from the code's in the last place:
  for \<open>(29 / 100) * 100\<close> the code has \<open>28.999999999999996\<close> and the model 29. The
  theorems on the progress of an animation (C2, C7 and C8 below) therefore state only what
  rounding to nearest preserves: which inputs the progress depends on, its sign, its order,
  the bounds 0 and 100, and values that the code computes without rounding. The model's exact
  value appears in the lemmas \<open>progress_of_elapsed\<close> and \<open>progress_live\<close> alone, which
  serve the proofs of those theorems.
\<close>

datatype jsnum = Fin real | PInf | NInf | NaN

fun jneg :: "jsnum \<Rightarrow> jsnum" where
  "jneg (Fin a) = Fin (- a)"
| "jneg PInf = NInf"
| "jneg NInf = PInf"
| "jneg NaN = NaN"

fun jadd :: "jsnum \<Rightarrow> jsnum \<Rightarrow> jsnum" where
  "jadd (Fin a) (Fin b) = Fin (a + b)"
| "jadd (Fin a) PInf = PInf"
| "jadd (Fin a) NInf = NInf"
| "jadd (Fin a) NaN = NaN"
| "jadd PInf (Fin b) = PInf"
| "jadd PInf PInf = PInf"
| "jadd PInf NInf = NaN"
| "jadd PInf NaN = NaN"
| "jadd NInf (Fin b) = NInf"
| "jadd NInf PInf = NaN"
| "jadd NInf NInf = NInf"
| "jadd NInf NaN = NaN"
| "jadd NaN b = NaN"

definition jsub :: "jsnum \<Rightarrow> jsnum \<Rightarrow> jsnum" where
  "jsub a b = jadd a (jneg b)"

text \<open>The sign of a finite operand, as \<open>Infinity * x\<close> and \<open>Infinity / x\<close> use it.\<close>

definition inf_signed :: "bool \<Rightarrow> jsnum" where
  "inf_signed positive = (if positive then PInf else NInf)"

fun jmul :: "jsnum \<Rightarrow> jsnum \<Rightarrow> jsnum" where
  "jmul (Fin a) (Fin b) = Fin (a * b)"
| "jmul (Fin a) PInf = (if a = 0 then NaN else inf_signed (0 < a))"
| "jmul (Fin a) NInf = (if a = 0 then NaN else inf_signed (a < 0))"
| "jmul (Fin a) NaN = NaN"
| "jmul PInf (Fin b) = (if b = 0 then NaN else inf_signed (0 < b))"
| "jmul PInf PInf = PInf"
| "jmul PInf NInf = NInf"
| "jmul PInf NaN = NaN"
| "jmul NInf (Fin b) = (if b = 0 then NaN else inf_signed (b < 0))"
| "jmul NInf PInf = NInf"
| "jmul NInf NInf = PInf"
| "jmul NInf NaN = NaN"
| "jmul NaN b = NaN"

fun jdiv :: "jsnum \<Rightarrow> jsnum \<Rightarrow> jsnum" where
  "jdiv (Fin a) (Fin b) =
     (if b = 0 then (if a = 0 then NaN else inf_signed (0 < a)) else Fin (a / b))"
| "jdiv (Fin a) PInf = Fin 0"
| "jdiv (Fin a) NInf = Fin 0"
| "jdiv (Fin a) NaN = NaN"
| "jdiv PInf (Fin b) = inf_signed (0 \<le> b)"
| "jdiv PInf PInf = NaN"
| "jdiv PInf NInf = NaN"
| "jdiv PInf NaN = NaN"
| "jdiv NInf (Fin b) = inf_signed (b < 0)"
| "jdiv NInf PInf = NaN"
| "jdiv NInf NInf = NaN"
| "jdiv NInf NaN = NaN"
| "jdiv NaN b = NaN"

text \<open>\<open>a > b\<close> and \<open>a >= b\<close>: false as soon as one side is \<open>NaN\<close>.\<close>

fun jgt :: "jsnum \<Rightarrow> jsnum \<Rightarrow> bool" where
  "jgt (Fin a) (Fin b) = (b < a)"
| "jgt (Fin a) PInf = False"
| "jgt (Fin a) NInf = True"
| "jgt (Fin a) NaN = False"
| "jgt PInf (Fin b) = True"
| "jgt PInf PInf = False"
| "jgt PInf NInf = True"
| "jgt PInf NaN = False"
| "jgt NInf b = False"
| "jgt NaN b = False"

fun jge :: "jsnum \<Rightarrow> jsnum \<Rightarrow> bool" where
  "jge (Fin a) (Fin b) = (b \<le> a)"
| "jge (Fin a) PInf = False"
| "jge (Fin a) NInf = True"
| "jge (Fin a) NaN = False"
| "jge PInf (Fin b) = True"
| "jge PInf PInf = True"
| "jge PInf NInf = True"
| "jge PInf NaN = False"
| "jge NInf (Fin b) = False"
| "jge NInf PInf = False"
| "jge NInf NInf = True"
| "jge NInf NaN = False"
| "jge NaN b = False"

text \<open>An integer (a timestamp, a duration, a percentage key) read as a number.\<close>

definition num :: "int \<Rightarrow> jsnum" where
  "num i = Fin (of_int i)"

section \<open>The data of \<open>client-animations.ts\<close>\<close>

text \<open>
  The types of the descriptors and of the keyframe tables, and the table \<open>animations\<close> of
  all keyframe tables by name, are imported from files that are not among the sources.

  \<^item> \<open>animations\<close> is a parameter of the model: \<open>animations name\<close> is \<open>None\<close> where the
    property is \<open>undefined\<close>.
  \<^item> \<open>Date.now()\<close> is a parameter of each function that reads the clock. One call of the
    engine reads it at most twice: \<open>getAnimationKeys\<close> reads it for the current animation
    (\<open>now\<close>), and \<open>isOldAnimationCanceled\<close> reads it afterwards (\<open>now'\<close>).
  \<^item> Part names are taken not to be names of properties that every JavaScript object
    inherits (such as \<open>constructor\<close>).
\<close>

text \<open>
  Modelled from the spec: the missing type \<open>Animation\<close>, the specification's
  \<open>{ name: string, createdAt: timestamp, duration: integer milliseconds }\<close>, and the missing
  type \<open>OldAnimation\<close>, which adds \<open>canceledAt: timestamp\<close>. The code reads \<open>canceledAt\<close>
  through a cast; on a descriptor without it the read is \<open>undefined\<close>, so the field is
  optional here.
\<close>

record Animation =
  name :: string
  createdAt :: int
  duration :: int
  canceledAt :: "int option"

text \<open>
  Modelled from the spec: the missing type \<open>AnimationDataPart\<close>, the specification's
  Transform \<open>{ x: number, y: number, rotation: number }\<close>.
\<close>

record AnimationDataPart =
  x :: jsnum
  y :: jsnum
  rotation :: jsnum

text \<open>
  Modelled from the spec: the missing type \<open>AnimationData\<close>, the specification's keyframe
  table, a mapping from integer percentage keys to keyframes, each a mapping from part names
  to values. A table is the list of its entries in the order of \<open>Object.keys\<close>, and
  \<open>animationData[k]\<close> is the first entry under \<open>k\<close>.
\<close>

type_synonym Keyframe = "string \<rightharpoonup> AnimationDataPart"

type_synonym AnimationData = "(int \<times> Keyframe) list"

text \<open>The type of the engine's result, declared in the source.\<close>

type_synonym ReturnedAnimatedValues = "string \<rightharpoonup> AnimationDataPart"

text \<open>
  The \<open>type\<close> argument \<open>'new' | 'old'\<close> (absent in one call), the one exception the code
  can raise, and the result of \<open>getAnimationKeys\<close>.
\<close>

datatype anim_type = New | Old

datatype error = TypeError

record AnimationKeys =
  from_key :: jsnum
  to_key :: jsnum
  progress :: jsnum

definition emptyValues :: AnimationDataPart where
  "emptyValues = \<lparr>x = Fin 0, y = Fin 0, rotation = Fin 0\<rparr>"

text \<open>
  \<open>animationData[n]\<close> for a number \<open>n\<close>: the property named by the number. Only an integer
  names a percentage key.
\<close>

fun keyframeAt :: "AnimationData \<Rightarrow> jsnum \<Rightarrow> Keyframe option" where
  "keyframeAt d (Fin r) = (if of_int \<lfloor>r\<rfloor> = r then map_of d \<lfloor>r\<rfloor> else None)"
| "keyframeAt d PInf = None"
| "keyframeAt d NInf = None"
| "keyframeAt d NaN = None"

section \<open>The functions of \<open>client-animations.ts\<close>\<close>

definition isOldAnimationCanceled :: "int \<Rightarrow> Animation option \<Rightarrow> bool" where
  "isOldAnimationCanceled now oldAnimation =
     (case oldAnimation of
        None \<Rightarrow> False
      | Some a \<Rightarrow> now - createdAt a - duration a < 0)"

definition calculateProgressBetweenKeys :: "jsnum \<Rightarrow> jsnum \<Rightarrow> jsnum \<Rightarrow> jsnum" where
  "calculateProgressBetweenKeys from to prog =
     (let diff = jsub to from;
          progressBetween = jdiv (jsub prog from) diff
      in if jgt progressBetween (Fin 1) then Fin 1 else progressBetween)"

text \<open>
  The \<open>keys.forEach\<close> of \<open>getAnimationKeys\<close>, on the keys still to visit and the current
  \<open>(from, to)\<close>; \<open>keys[keyIndex + 1]\<close> is the head of the rest.
\<close>

fun keysLoop :: "jsnum \<Rightarrow> int list \<Rightarrow> jsnum \<times> jsnum \<Rightarrow> jsnum \<times> jsnum" where
  "keysLoop prog [] ft = ft"
| "keysLoop prog (k # ks) ft =
     keysLoop prog ks
       (if jge prog (num k)
        then (num k, case ks of [] \<Rightarrow> Fin 100 | k' # _ \<Rightarrow> num k')
        else ft)"

definition timeElapsed :: "int \<Rightarrow> Animation \<Rightarrow> anim_type option \<Rightarrow> jsnum" where
  "timeElapsed now a ty =
     (if ty = Some Old
      then (case canceledAt a of None \<Rightarrow> NaN | Some c \<Rightarrow> jsub (num c) (num (createdAt a)))
      else jsub (num now) (num (createdAt a)))"

text \<open>
  \<open>progress0\<close> is \<open>(timeElapsed / animation.duration) * 100\<close>, in this order; the code rounds
  the quotient and the product, the model does not (see the section on numbers).
\<close>

definition getAnimationKeys ::
  "int \<Rightarrow> Animation option \<Rightarrow> AnimationData option \<Rightarrow> anim_type option \<Rightarrow> AnimationKeys" where
  "getAnimationKeys now animation animationData ty =
     (case animation of
        None \<Rightarrow> \<lparr>from_key = Fin 0, to_key = Fin 0, progress = Fin 0\<rparr>
      | Some a \<Rightarrow>
        (case animationData of
           None \<Rightarrow> \<lparr>from_key = Fin 0, to_key = Fin 0, progress = Fin 0\<rparr>
         | Some d \<Rightarrow>
           (let progress0 = jmul (jdiv (timeElapsed now a ty) (num (duration a))) (Fin 100);
                prog = (if jgt progress0 (Fin 100) then Fin 100 else progress0);
                keys = map fst d;
                ft = keysLoop prog keys
                       (Fin 0, case keys of [] \<Rightarrow> NaN | k # _ \<Rightarrow> num k)
            in \<lparr>from_key = fst ft, to_key = snd ft, progress = prog\<rparr>)))"

text \<open>The \<open>for (key in emptyValues)\<close> loop: the three fields, each blended linearly.\<close>

definition blendValues :: "AnimationDataPart \<Rightarrow> AnimationDataPart \<Rightarrow> jsnum \<Rightarrow> AnimationDataPart" where
  "blendValues fromValues toValues progressBetween =
     \<lparr>x = jadd (x fromValues) (jmul (jsub (x toValues) (x fromValues)) progressBetween),
      y = jadd (y fromValues) (jmul (jsub (y toValues) (y fromValues)) progressBetween),
      rotation = jadd (rotation fromValues)
                   (jmul (jsub (rotation toValues) (rotation fromValues)) progressBetween)\<rparr>"

text \<open>
  \<open>animationData[k] && animationData[k][returnKey]\<close>, defaulting to \<open>emptyValues\<close>. Reading a
  property of an \<open>undefined\<close> table throws.
\<close>

definition partAt :: "AnimationData option \<Rightarrow> jsnum \<Rightarrow> string \<Rightarrow> error + AnimationDataPart" where
  "partAt animationData k returnKey =
     (case animationData of
        None \<Rightarrow> Inl TypeError
      | Some d \<Rightarrow>
        (case keyframeAt d k of
           None \<Rightarrow> Inr emptyValues
         | Some frame \<Rightarrow>
           (case frame returnKey of None \<Rightarrow> Inr emptyValues | Some v \<Rightarrow> Inr v)))"

text \<open>The body of the \<open>returnKeys.forEach\<close> callback: the value stored under \<open>returnKey\<close>.\<close>

definition animatedPart ::
  "jsnum \<Rightarrow> jsnum \<Rightarrow> jsnum \<Rightarrow> AnimationData option \<Rightarrow> ReturnedAnimatedValues option \<Rightarrow> string
   \<Rightarrow> error + AnimationDataPart" where
  "animatedPart from to progressBetween animationData oldAnimationValues returnKey =
     (case (case (case oldAnimationValues of None \<Rightarrow> None | Some old \<Rightarrow> old returnKey) of
              Some v \<Rightarrow> Inr v
            | None \<Rightarrow> partAt animationData from returnKey) of
        Inl e \<Rightarrow> Inl e
      | Inr fromValues \<Rightarrow>
        (case partAt animationData to returnKey of
           Inl e \<Rightarrow> Inl e
         | Inr toValues \<Rightarrow> Inr (blendValues fromValues toValues progressBetween)))"

fun returnKeysLoop ::
  "(string \<Rightarrow> error + AnimationDataPart) \<Rightarrow> string list \<Rightarrow> ReturnedAnimatedValues
   \<Rightarrow> error + ReturnedAnimatedValues" where
  "returnKeysLoop body [] result = Inr result"
| "returnKeysLoop body (returnKey # rest) result =
     (case body returnKey of
        Inl e \<Rightarrow> Inl e
      | Inr v \<Rightarrow> returnKeysLoop body rest (result(returnKey \<mapsto> v)))"

text \<open>
  \<open>from\<close> and \<open>to\<close> are numbers by their type, so the \<open>typeof\<close> test never returns early and
  has no branch here.
\<close>

definition calculateAnimatedValues ::
  "int \<Rightarrow> jsnum \<Rightarrow> jsnum \<Rightarrow> jsnum \<Rightarrow> Animation option \<Rightarrow> AnimationData option \<Rightarrow> string list
   \<Rightarrow> anim_type option \<Rightarrow> jsnum option \<Rightarrow> ReturnedAnimatedValues option
   \<Rightarrow> error + ReturnedAnimatedValues" where
  "calculateAnimatedValues now from to prog animation animationData returnKeys ty baseFrom
       oldAnimationValues =
     (if ty = Some Old \<and> \<not> (baseFrom = Some (Fin 0) \<and> isOldAnimationCanceled now animation)
      then Inr Map.empty
      else
        (let progressBetween = calculateProgressBetweenKeys from to prog
         in returnKeysLoop
              (animatedPart from to progressBetween animationData oldAnimationValues)
              returnKeys Map.empty))"

text \<open>
  \<open>animations[oldAnimation?.name]\<close> with no old animation reads the property named
  \<open>undefined\<close>.
\<close>

definition getAnimationValues ::
  "(string \<Rightarrow> AnimationData option) \<Rightarrow> int \<Rightarrow> int \<Rightarrow> Animation option
   \<Rightarrow> Animation option \<Rightarrow> string list \<Rightarrow> error + ReturnedAnimatedValues" where
  "getAnimationValues animations now now' animation oldAnimation returnKeys =
     (case animation of
        None \<Rightarrow> Inr Map.empty
      | Some a \<Rightarrow>
        if returnKeys = [] then Inr Map.empty
        else
          (let animationData = animations (name a);
               oldAnimationData =
                 animations (case oldAnimation of None \<Rightarrow> ''undefined'' | Some p \<Rightarrow> name p);
               new = getAnimationKeys now animation animationData None;
               old = getAnimationKeys now oldAnimation oldAnimationData (Some Old)
           in case calculateAnimatedValues now' (from_key old) (to_key old) (progress old)
                     oldAnimation oldAnimationData returnKeys (Some Old)
                     (Some (from_key new)) None of
                Inl e \<Rightarrow> Inl e
              | Inr oldAnimationValues \<Rightarrow>
                  calculateAnimatedValues now' (from_key new) (to_key new) (progress new)
                    animation animationData returnKeys (Some New) None
                    (Some oldAnimationValues)))"

section \<open>The tick loop of \<open>server-game.ts\<close>\<close>

text \<open>
  Of the class \<open>Game\<close> the model keeps the numeric fields; sockets and players, and the
  imported functions that move players and send the snapshot, do not touch them. The tick
  rate is the constant 60, so no division of this part has a zero divisor and its numbers
  are plain reals. The constructor reads the clock twice (\<open>Date.now()\<close>, then
  \<open>new Date().getTime()\<close>); \<open>update\<close> reads it at its start and again after the work of
  the tick. \<open>update\<close> returns the new state and the delay it passes to \<open>setTimeout\<close>.
\<close>

record Game =
  mapSize :: real
  tickRate :: real
  loopTimeout :: real
  lastUpdateTime :: real
  start :: real
  time :: real

definition constructor :: "real \<Rightarrow> real \<Rightarrow> Game" where
  "constructor now0 now1 =
     \<lparr>mapSize = 1000, tickRate = 60, loopTimeout = 1000 / 60,
      lastUpdateTime = now0, start = now1, time = 0\<rparr>"

definition update :: "real \<Rightarrow> real \<Rightarrow> Game \<Rightarrow> Game \<times> real" where
  "update now0 now1 g =
     (let g1 = g\<lparr>lastUpdateTime := now0\<rparr>;
          g2 = g1\<lparr>time := time g1 + loopTimeout g1\<rparr>;
          diff = now1 - start g2 - time g2
      in (g2, loopTimeout g2 - diff))"

section \<open>The specification's formulas\<close>



definition spec_from :: "int list \<Rightarrow> jsnum \<Rightarrow> jsnum" where
  "spec_from keys prog =
     (let below = filter (\<lambda>k. jge prog (num k)) keys
      in if below = [] then Fin 0 else num (Max (set below)))"

definition spec_to :: "int list \<Rightarrow> jsnum \<Rightarrow> jsnum" where
  "spec_to keys from =
     (let above = filter (\<lambda>k. jgt (num k) from) keys
      in if above = [] then Fin 100 else num (Min (set above)))"

text \<open>What a keyframe table says about one part: its keys, and that part's entry under each.\<close>

definition restrictPart :: "string \<Rightarrow> AnimationData \<Rightarrow> (int \<times> AnimationDataPart option) list" where
  "restrictPart part d = map (\<lambda>(k, frame). (k, frame part)) d"

text \<open>A value whose three fields are finite numbers.\<close>

fun isFin :: "jsnum \<Rightarrow> bool" where
  "isFin (Fin a) = True"
| "isFin PInf = False"
| "isFin NInf = False"
| "isFin NaN = False"

definition finitePart :: "AnimationDataPart \<Rightarrow> bool" where
  "finitePart v = (isFin (x v) \<and> isFin (y v) \<and> isFin (rotation v))"

text \<open>A keyframe table all of whose values are finite.\<close>

definition finiteData :: "AnimationData \<Rightarrow> bool" where
  "finiteData d = (\<forall>(k, frame)\<in>set d. \<forall>v\<in>ran frame. finitePart v)"

section \<open>Example data\<close>

text \<open>
  The keyframe table of the specification's worked example, a second table whose last key
  is 100, and descriptors that play them.
\<close>

definition attackData :: AnimationData where
  "attackData =
     [(0, [''head'' \<mapsto> \<lparr>x = Fin 0, y = Fin 0, rotation = Fin 0\<rparr>]),
      (40, [''head'' \<mapsto> \<lparr>x = Fin 10, y = Fin 0, rotation = Fin 0\<rparr>]),
      (60, [''head'' \<mapsto> \<lparr>x = Fin 10, y = Fin 5, rotation = Fin 0\<rparr>])]"

definition swingData :: AnimationData where
  "swingData =
     [(50, [''head'' \<mapsto> \<lparr>x = Fin 4, y = Fin 0, rotation = Fin 1\<rparr>]),
      (100, [''head'' \<mapsto> \<lparr>x = Fin 8, y = Fin 2, rotation = Fin 0\<rparr>])]"

definition exampleAnimations :: "string \<Rightarrow> AnimationData option" where
  "exampleAnimations n =
     (if n = ''attack'' then Some attackData
      else if n = ''swing'' then Some swingData
      else None)"

definition attack :: Animation where
  "attack = \<lparr>name = ''attack'', createdAt = 0, duration = 1000, canceledAt = None\<rparr>"

definition swing :: Animation where
  "swing = \<lparr>name = ''swing'', createdAt = 0, duration = 1000, canceledAt = None\<rparr>"

text \<open>
  The attack started at 500, when the swing of the second descriptor was canceled; an attack
  with a negative duration and one with duration zero.
\<close>

definition attackLate :: Animation where
  "attackLate = \<lparr>name = ''attack'', createdAt = 500, duration = 1000, canceledAt = None\<rparr>"

definition swingCanceled :: Animation where
  "swingCanceled = \<lparr>name = ''swing'', createdAt = 0, duration = 1000, canceledAt = Some 500\<rparr>"

definition attackBackwards :: Animation where
  "attackBackwards =
     \<lparr>name = ''attack'', createdAt = 0, duration = - 1000, canceledAt = None\<rparr>"

definition attackInstant :: Animation where
  "attackInstant = \<lparr>name = ''attack'', createdAt = 0, duration = 0, canceledAt = None\<rparr>"

text \<open>
  The same tables with entries for an arm added: they say the same about the head.
\<close>

definition attackDataArm :: AnimationData where
  "attackDataArm =
     [(0, [''head'' \<mapsto> \<lparr>x = Fin 0, y = Fin 0, rotation = Fin 0\<rparr>,
           ''armLeft'' \<mapsto> \<lparr>x = Fin 1, y = Fin 1, rotation = Fin 1\<rparr>]),
      (40, [''head'' \<mapsto> \<lparr>x = Fin 10, y = Fin 0, rotation = Fin 0\<rparr>]),
      (60, [''head'' \<mapsto> \<lparr>x = Fin 10, y = Fin 5, rotation = Fin 0\<rparr>,
            ''armLeft'' \<mapsto> \<lparr>x = Fin 7, y = Fin 3, rotation = Fin 2\<rparr>])]"

definition exampleAnimationsArm :: "string \<Rightarrow> AnimationData option" where
  "exampleAnimationsArm n =
     (if n = ''attack'' then Some attackDataArm
      else if n = ''swing'' then Some swingData
      else None)"

text \<open>
  A third configuration: the attack's table with the arm entries, another table under
  \<open>swing\<close> and a table under \<open>dance\<close>.
\<close>

definition exampleAnimationsOther :: "string \<Rightarrow> AnimationData option" where
  "exampleAnimationsOther n =
     (if n = ''attack'' then Some attackDataArm
      else if n = ''swing'' then Some attackData
      else if n = ''dance'' then Some swingData
      else None)"

definition unknownAnimation :: Animation where
  "unknownAnimation = \<lparr>name = ''dance'', createdAt = 0, duration = 1000, canceledAt = None\<rparr>"

section \<open>The blend factor\<close>

lemmas engine_defs = getAnimationValues_def getAnimationKeys_def calculateAnimatedValues_def
  isOldAnimationCanceled_def animatedPart_def partAt_def timeElapsed_def
  calculateProgressBetweenKeys_def blendValues_def emptyValues_def jsub_def num_def Let_def

lemma calculateProgressBetweenKeys_Fin:
  "t \<noteq> f \<Longrightarrow>
   calculateProgressBetweenKeys (Fin f) (Fin t) (Fin p) = Fin (min ((p - f) / (t - f)) 1)"
  by (simp add: calculateProgressBetweenKeys_def jsub_def Let_def min_def)

lemma calculateProgressBetweenKeys_equal_keys:
  "calculateProgressBetweenKeys (Fin f) (Fin f) (Fin p)
   = (if p = f then NaN else if f < p then Fin 1 else NInf)"
  by (simp add: calculateProgressBetweenKeys_def jsub_def inf_signed_def)

lemma saturation_with_key_100:
  "getAnimationKeys 1000 (Some swing) (Some swingData) None
     = \<lparr>from_key = Fin 100, to_key = Fin 100, progress = Fin 100\<rparr>"
  by (simp add: getAnimationKeys_def timeElapsed_def swing_def swingData_def num_def jsub_def
      Let_def)

text \<open>
  C6. The blend factor \<open>progressBetween(from, to, progress)\<close> is said to be 0 when
  \<open>to = from\<close>, with no division by zero. The code divides: at \<open>from = to = progress\<close>, which
  the resolver returns for a missing table (all three 0) and at saturation on a table whose
  last key is 100 (all three 100), the factor is \<open>NaN\<close>; the engine then returns \<open>NaN\<close> in
  every field of the part.
\<close>

theorem progressBetween_equal_keys_is_NaN:
  "calculateProgressBetweenKeys (Fin 0) (Fin 0) (Fin 0) = NaN
   \<and> calculateProgressBetweenKeys (Fin 100) (Fin 100) (Fin 100) = NaN
   \<and> map_sum id (\<lambda>m. m ''head'')
         (getAnimationValues exampleAnimations 1000 1000 (Some swing) None [''head''])
       = Inr (Some \<lparr>x = NaN, y = NaN, rotation = NaN\<rparr>)"
proof (intro conjI)
  show "calculateProgressBetweenKeys (Fin 0) (Fin 0) (Fin 0) = NaN"
    by (simp add: calculateProgressBetweenKeys_def jsub_def)
  show "calculateProgressBetweenKeys (Fin 100) (Fin 100) (Fin 100) = NaN"
    by (simp add: calculateProgressBetweenKeys_def jsub_def)
  show "map_sum id (\<lambda>m. m ''head'')
          (getAnimationValues exampleAnimations 1000 1000 (Some swing) None [''head''])
        = Inr (Some \<lparr>x = NaN, y = NaN, rotation = NaN\<rparr>)"
    by (simp add: engine_defs exampleAnimations_def swing_def swingData_def)
qed

section \<open>The loop over the requested parts\<close>

lemma returnKeysLoop_result:
  "returnKeysLoop body ks m0 =
     (if \<exists>k\<in>set ks. isl (body k) then Inl TypeError
      else Inr (\<lambda>k. if k \<in> set ks then Some (projr (body k)) else m0 k))"
proof (induction ks arbitrary: m0)
  case Nil
  show ?case by simp
next
  case (Cons k ks)
  show ?case
  proof (cases "body k")
    case (Inl e)
    then show ?thesis by (cases e) simp
  next
    case (Inr v)
    then show ?thesis by (auto simp: Cons.IH fun_eq_iff)
  qed
qed

lemma partAt_isl: "isl (partAt animationData k returnKey) = (animationData = None)"
  by (simp add: partAt_def split: option.splits)

lemma animatedPart_isl:
  "isl (animatedPart from to pb animationData oldAnimationValues returnKey) = (animationData = None)"
  by (cases animationData)
     (auto simp: animatedPart_def partAt_def split: option.splits sum.splits)

lemma calculateAnimatedValues_at:
  assumes "k \<in> set returnKeys"
  shows "map_sum id (\<lambda>m. m k)
           (calculateAnimatedValues now from to prog animation animationData returnKeys ty
              baseFrom oldAnimationValues) =
         (if ty = Some Old \<and> \<not> (baseFrom = Some (Fin 0) \<and> isOldAnimationCanceled now animation)
          then Inr None
          else map_sum id Some
                 (animatedPart from to (calculateProgressBetweenKeys from to prog)
                    animationData oldAnimationValues k))"
proof (cases animationData)
  case None
  then have "isl (animatedPart from to (calculateProgressBetweenKeys from to prog)
                    animationData oldAnimationValues k)"
    by (simp add: animatedPart_isl)
  then obtain e where "animatedPart from to (calculateProgressBetweenKeys from to prog)
                    animationData oldAnimationValues k = Inl e"
    by (auto simp: isl_def)
  moreover have "e = TypeError" by (cases e) simp
  ultimately show ?thesis using assms None
    by (auto simp: calculateAnimatedValues_def returnKeysLoop_result animatedPart_isl Let_def)
next
  case (Some d)
  have "\<not> isl (animatedPart from to (calculateProgressBetweenKeys from to prog)
                    animationData oldAnimationValues k)"
    using Some by (simp add: animatedPart_isl)
  then obtain v where "animatedPart from to (calculateProgressBetweenKeys from to prog)
                    animationData oldAnimationValues k = Inr v"
    by (cases "animatedPart from to (calculateProgressBetweenKeys from to prog)
                    animationData oldAnimationValues k") auto
  then show ?thesis using assms Some
    by (auto simp: calculateAnimatedValues_def returnKeysLoop_result animatedPart_isl Let_def)
qed

section \<open>The crossfade guard\<close>

lemma old_pass_empty_iff:
  assumes "returnKeys \<noteq> []"
  shows "(calculateAnimatedValues now f t pr prev prevData returnKeys (Some Old) (Some newFrom) None
            = Inr Map.empty)
         = (\<not> (newFrom = Fin 0 \<and> isOldAnimationCanceled now prev))"
proof (cases "newFrom = Fin 0 \<and> isOldAnimationCanceled now prev")
  case False
  then show ?thesis by (auto simp: calculateAnimatedValues_def)
next
  case True
  obtain k where k: "k \<in> set returnKeys" using assms by (cases returnKeys) auto
  have "map_sum id (\<lambda>m. m k)
          (calculateAnimatedValues now f t pr prev prevData returnKeys (Some Old) (Some newFrom) None)
        \<noteq> Inr None"
    using True by (cases "animatedPart f t (calculateProgressBetweenKeys f t pr) prevData None k")
      (simp_all add: calculateAnimatedValues_at [OF k])
  then have "calculateAnimatedValues now f t pr prev prevData returnKeys (Some Old) (Some newFrom) None
        \<noteq> Inr Map.empty"
    by auto
  with True show ?thesis by simp
qed

lemma guard_fails_no_contribution:
  assumes "\<not> (from_key (getAnimationKeys now (Some a) (animations (name a)) None) = Fin 0
             \<and> isOldAnimationCanceled now' prev)"
  shows "getAnimationValues animations now now' (Some a) prev returnKeys
         = getAnimationValues animations now now' (Some a) None returnKeys"
proof -
  have "calculateAnimatedValues now' f t pr prev pd returnKeys (Some Old)
          (Some (from_key (getAnimationKeys now (Some a) (animations (name a)) None))) None
        = Inr Map.empty" for f t pr pd
    using assms by (simp add: calculateAnimatedValues_def)
  moreover have "calculateAnimatedValues now' f t pr None pd returnKeys (Some Old)
          (Some (from_key (getAnimationKeys now (Some a) (animations (name a)) None))) None
        = Inr Map.empty" for f t pr pd
    by (simp add: calculateAnimatedValues_def isOldAnimationCanceled_def)
  ultimately show ?thesis
    by (simp add: getAnimationValues_def Let_def)
qed

text \<open>
  C4. The pass over the previous animation contributes exactly when the current animation's
  resolved \<open>from\<close> key is 0 and \<open>now - previous.createdAt - previous.duration < 0\<close>, where
  \<open>now\<close> is the clock as the guard reads it and not the time of cancellation. With no previous
  animation the guard is false. For a non-empty list of parts the pass returns the empty
  mapping exactly when the guard fails, and the engine then returns what it returns with no
  previous animation at all.
\<close>

theorem crossfade_guard:
  "isOldAnimationCanceled now None = False
   \<and> isOldAnimationCanceled now (Some p) = (now - createdAt p - duration p < 0)
   \<and> (returnKeys \<noteq> [] \<longrightarrow>
        (calculateAnimatedValues now f t pr prev prevData returnKeys (Some Old) (Some newFrom) None
           = Inr Map.empty)
        = (\<not> (newFrom = Fin 0 \<and> isOldAnimationCanceled now prev)))
   \<and> (\<not> (from_key (getAnimationKeys now (Some a) (animations (name a)) None) = Fin 0
             \<and> isOldAnimationCanceled now' prev) \<longrightarrow>
        getAnimationValues animations now now' (Some a) prev returnKeys
         = getAnimationValues animations now now' (Some a) None returnKeys)"
proof (intro conjI impI)
  show "isOldAnimationCanceled now None = False"
    by (simp add: isOldAnimationCanceled_def)
  show "isOldAnimationCanceled now (Some p) = (now - createdAt p - duration p < 0)"
    by (simp add: isOldAnimationCanceled_def)
next
  assume "returnKeys \<noteq> []"
  then show "(calculateAnimatedValues now f t pr prev prevData returnKeys (Some Old) (Some newFrom) None
           = Inr Map.empty)
        = (\<not> (newFrom = Fin 0 \<and> isOldAnimationCanceled now prev))"
    by (rule old_pass_empty_iff)
next
  assume "\<not> (from_key (getAnimationKeys now (Some a) (animations (name a)) None) = Fin 0
             \<and> isOldAnimationCanceled now' prev)"
  then show "getAnimationValues animations now now' (Some a) prev returnKeys
         = getAnimationValues animations now now' (Some a) None returnKeys"
    by (rule guard_fails_no_contribution)
qed

text \<open>The guard holds at 600 for a \<open>from\<close> key of 0 and fails for a \<open>from\<close> key of 40; at 1000
  the current animation has left its first keyframe.\<close>

theorem crossfade_guard_witness:
  "[''head''] \<noteq> []
   \<and> isOldAnimationCanceled 600 (Some swingCanceled)
   \<and> calculateAnimatedValues 600 (Fin 50) (Fin 100) (Fin 50) (Some swingCanceled) (Some swingData)
        [''head''] (Some Old) (Some (Fin 0)) None \<noteq> Inr Map.empty
   \<and> calculateAnimatedValues 600 (Fin 50) (Fin 100) (Fin 50) (Some swingCanceled) (Some swingData)
        [''head''] (Some Old) (Some (Fin 40)) None = Inr Map.empty
   \<and> \<not> (from_key (getAnimationKeys 1000 (Some attackLate)
                    (exampleAnimations (name attackLate)) None) = Fin 0
          \<and> isOldAnimationCanceled 1000 (Some swingCanceled))
   \<and> getAnimationValues exampleAnimations 1000 1000 (Some attackLate) (Some swingCanceled) [''head'']
       = getAnimationValues exampleAnimations 1000 1000 (Some attackLate) None [''head'']"
proof -
  have ne: "[''head''] \<noteq> []" by simp
  have c: "isOldAnimationCanceled 600 (Some swingCanceled)"
    by (simp add: isOldAnimationCanceled_def swingCanceled_def)
  have g: "\<not> (from_key (getAnimationKeys 1000 (Some attackLate)
                    (exampleAnimations (name attackLate)) None) = Fin 0
          \<and> isOldAnimationCanceled 1000 (Some swingCanceled))"
    by (simp add: isOldAnimationCanceled_def swingCanceled_def)
  show ?thesis
    using crossfade_guard [of 600 swingCanceled "[''head'']" "Fin 50" "Fin 100" "Fin 50"
        "Some swingCanceled" "Some swingData" "Fin 0"]
      crossfade_guard [of 600 swingCanceled "[''head'']" "Fin 50" "Fin 100" "Fin 50"
        "Some swingCanceled" "Some swingData" "Fin 40"]
      crossfade_guard [of 1000 swingCanceled "[''head'']" "Fin 50" "Fin 100" "Fin 50"
        "Some swingCanceled" "Some swingData" "Fin 0" attackLate exampleAnimations 1000]
      ne c g
    by simp
qed

section \<open>One part at a time\<close>

lemma map_fst_restrictPart: "map fst (restrictPart part d) = map fst d"
  by (induction d) (auto simp: restrictPart_def)

lemma map_of_restrictPart:
  "map_of (restrictPart part d) k = map_option (\<lambda>frame. frame part) (map_of d k)"
  by (induction d) (auto simp: restrictPart_def)

lemma partAt_restrictPart:
  assumes "map_option (restrictPart part) D1 = map_option (restrictPart part) D2"
  shows "partAt D1 k part = partAt D2 k part"
proof (cases D1)
  case None
  with assms have "D2 = None" by simp
  with None show ?thesis by simp
next
  case (Some d1)
  with assms obtain d2 where d2: "D2 = Some d2" "restrictPart part d1 = restrictPart part d2"
    by (cases D2) auto
  have "map_option (\<lambda>frame. frame part) (keyframeAt d1 k)
        = map_option (\<lambda>frame. frame part) (keyframeAt d2 k)"
    using d2(2) map_of_restrictPart [of part d1] map_of_restrictPart [of part d2]
    by (cases k) auto
  then show ?thesis using Some d2(1)
    by (auto simp: partAt_def split: option.splits)
qed

lemma getAnimationKeys_restrictPart:
  assumes "map_option (restrictPart part) D1 = map_option (restrictPart part) D2"
  shows "getAnimationKeys now animation D1 ty = getAnimationKeys now animation D2 ty"
proof (cases D1)
  case None
  with assms have "D2 = None" by simp
  with None show ?thesis by simp
next
  case (Some d1)
  with assms obtain d2 where d2: "D2 = Some d2" "restrictPart part d1 = restrictPart part d2"
    by (cases D2) auto
  have "map fst d1 = map fst d2"
    using d2(2) map_fst_restrictPart [of part d1] map_fst_restrictPart [of part d2] by simp
  then show ?thesis using Some d2(1)
    by (simp add: getAnimationKeys_def split: option.splits)
qed

lemma animatedPart_cong:
  assumes "partAt D1 from part = partAt D2 from part"
    and "partAt D1 to part = partAt D2 to part"
    and "(case o1 of None \<Rightarrow> None | Some old \<Rightarrow> old part)
         = (case o2 of None \<Rightarrow> None | Some old \<Rightarrow> old part)"
  shows "animatedPart from to pb D1 o1 part = animatedPart from to pb D2 o2 part"
  using assms by (auto simp: animatedPart_def split: option.splits sum.splits)

lemma animatedPart_tables:
  assumes "map_option (restrictPart part) D1 = map_option (restrictPart part) D2"
    and "(case o1 of None \<Rightarrow> None | Some old \<Rightarrow> old part)
         = (case o2 of None \<Rightarrow> None | Some old \<Rightarrow> old part)"
  shows "animatedPart from to pb D1 o1 part = animatedPart from to pb D2 o2 part"
proof (rule animatedPart_cong)
  show "partAt D1 from part = partAt D2 from part"
    by (rule partAt_restrictPart [OF assms(1)])
  show "partAt D1 to part = partAt D2 to part"
    by (rule partAt_restrictPart [OF assms(1)])
qed (rule assms(2))

lemma old_pass_absent:
  "calculateAnimatedValues now f t pr None D returnKeys (Some Old) baseFrom None = Inr Map.empty"
  by (simp add: calculateAnimatedValues_def isOldAnimationCanceled_def)

text \<open>
  C10. The value returned for a requested part depends on the descriptors, the two clock
  readings, and of the keyframe tables only on the two that the call's descriptors name
  (the current animation's and the previous animation's), there on the keys and on the
  entries for that part: two configurations whose two tables have the same keys and the same
  entries for the part give the same result for it (the same value, or an exception in both
  calls), whatever their other tables are, whatever the two tables say about other parts and
  whichever other parts are requested.
\<close>

theorem part_noninterference:
  assumes current: "\<forall>a. animation = Some a \<longrightarrow>
                      map_option (restrictPart part) (animations1 (name a))
                      = map_option (restrictPart part) (animations2 (name a))"
    and previous: "\<forall>p. oldAnimation = Some p \<longrightarrow>
                      map_option (restrictPart part) (animations1 (name p))
                      = map_option (restrictPart part) (animations2 (name p))"
    and "part \<in> set returnKeys1" and "part \<in> set returnKeys2"
  shows "map_sum id (\<lambda>m. m part)
           (getAnimationValues animations1 now now' animation oldAnimation returnKeys1)
         = map_sum id (\<lambda>m. m part)
           (getAnimationValues animations2 now now' animation oldAnimation returnKeys2)"
proof (cases animation)
  case None
  then show ?thesis by (simp add: getAnimationValues_def)
next
  case (Some a)
  have cur: "map_option (restrictPart part) (animations1 (name a))
             = map_option (restrictPart part) (animations2 (name a))"
    using current Some by simp
  define oldName where "oldName = (case oldAnimation of None \<Rightarrow> ''undefined'' | Some p \<Rightarrow> name p)"
  have prev: "map_option (restrictPart part) (animations1 oldName)
              = map_option (restrictPart part) (animations2 oldName)"
    if "oldAnimation = Some p" for p
    using previous that by (simp add: oldName_def)
  define new where "new = getAnimationKeys now (Some a) (animations1 (name a)) None"
  define old where "old = getAnimationKeys now oldAnimation (animations1 oldName) (Some Old)"
  have new2: "getAnimationKeys now (Some a) (animations2 (name a)) None = new"
    unfolding new_def by (rule getAnimationKeys_restrictPart [OF cur, symmetric])
  have old2: "getAnimationKeys now oldAnimation (animations2 oldName) (Some Old) = old"
  proof (cases oldAnimation)
    case None
    then show ?thesis by (simp add: old_def getAnimationKeys_def)
  next
    case (Some p)
    show ?thesis
      unfolding old_def by (rule getAnimationKeys_restrictPart [OF prev [OF Some], symmetric])
  qed
  define pass1 where "pass1 = calculateAnimatedValues now' (from_key old) (to_key old) (progress old)
      oldAnimation (animations1 oldName) returnKeys1 (Some Old) (Some (from_key new)) None"
  define pass2 where "pass2 = calculateAnimatedValues now' (from_key old) (to_key old) (progress old)
      oldAnimation (animations2 oldName) returnKeys2 (Some Old) (Some (from_key new)) None"
  have ne: "returnKeys1 \<noteq> []" "returnKeys2 \<noteq> []" using assms(3,4) by auto
  have g1: "getAnimationValues animations1 now now' (Some a) oldAnimation returnKeys1
        = (case pass1 of Inl e \<Rightarrow> Inl e | Inr ov \<Rightarrow>
            calculateAnimatedValues now' (from_key new) (to_key new) (progress new)
              (Some a) (animations1 (name a)) returnKeys1 (Some New) None (Some ov))"
    unfolding pass1_def new_def old_def oldName_def getAnimationValues_def Let_def
    using ne by simp
  have g2: "getAnimationValues animations2 now now' (Some a) oldAnimation returnKeys2
        = (case pass2 of Inl e \<Rightarrow> Inl e | Inr ov \<Rightarrow>
            calculateAnimatedValues now' (from_key new) (to_key new) (progress new)
              (Some a) (animations2 (name a)) returnKeys2 (Some New) None (Some ov))"
    unfolding pass2_def new2 [symmetric] old2 [symmetric] oldName_def getAnimationValues_def Let_def
    using ne by simp
  have pass: "map_sum id (\<lambda>m. m part) pass1 = map_sum id (\<lambda>m. m part) pass2"
  proof (cases oldAnimation)
    case None
    then show ?thesis by (simp add: pass1_def pass2_def old_pass_absent)
  next
    case (Some p)
    show ?thesis
      unfolding pass1_def pass2_def
      by (simp add: calculateAnimatedValues_at assms(3,4)
          animatedPart_tables [OF prev [OF Some], of None None])
  qed
  show ?thesis
  proof (cases pass1)
    case (Inl e)
    with pass obtain e' where "pass2 = Inl e'" by (cases pass2) auto
    with Inl pass show ?thesis by (simp add: Some g1 g2)
  next
    case (Inr ov1)
    with pass obtain ov2 where ov2: "pass2 = Inr ov2" "ov1 part = ov2 part"
      by (cases pass2) auto
    show ?thesis
      using ov2(2)
      by (simp add: Some g1 g2 Inr ov2(1) calculateAnimatedValues_at assms(3,4)
          animatedPart_tables [OF cur, of "Some ov1" "Some ov2"])
  qed
qed

text \<open>
  The attack alone, in two configurations that differ in the attack's arm entries and in
  the tables under other names; and the attack that replaced the canceled swing, in two
  configurations that differ in the attack's arm entries.
\<close>

theorem part_noninterference_witness:
  "map_option (restrictPart ''head'') (exampleAnimations (name attack))
     = map_option (restrictPart ''head'') (exampleAnimationsOther (name attack))
   \<and> map_option (restrictPart ''head'') (exampleAnimations ''swing'')
     \<noteq> map_option (restrictPart ''head'') (exampleAnimationsOther ''swing'')
   \<and> exampleAnimations ''dance'' \<noteq> exampleAnimationsOther ''dance''
   \<and> ''head'' \<in> set [''head''] \<and> ''head'' \<in> set [''armLeft'', ''head'']
   \<and> map_sum id (\<lambda>m. m ''head'')
         (getAnimationValues exampleAnimations 500 500 (Some attack) None [''head''])
       = Inr (Some \<lparr>x = Fin 10, y = Fin (5 / 2), rotation = Fin 0\<rparr>)
   \<and> map_sum id (\<lambda>m. m ''head'')
         (getAnimationValues exampleAnimationsOther 500 500 (Some attack) None
            [''armLeft'', ''head''])
       = Inr (Some \<lparr>x = Fin 10, y = Fin (5 / 2), rotation = Fin 0\<rparr>)
   \<and> map_option (restrictPart ''head'') (exampleAnimations (name attackLate))
     = map_option (restrictPart ''head'') (exampleAnimationsArm (name attackLate))
   \<and> map_option (restrictPart ''head'') (exampleAnimations (name swingCanceled))
     = map_option (restrictPart ''head'') (exampleAnimationsArm (name swingCanceled))
   \<and> map_sum id (\<lambda>m. m ''head'')
         (getAnimationValues exampleAnimations 600 600 (Some attackLate) (Some swingCanceled)
            [''head''])
       = map_sum id (\<lambda>m. m ''head'')
         (getAnimationValues exampleAnimationsArm 600 600 (Some attackLate) (Some swingCanceled)
            [''armLeft'', ''head''])"
proof -
  have t1: "map_option (restrictPart ''head'') (exampleAnimations (name attack))
     = map_option (restrictPart ''head'') (exampleAnimationsOther (name attack))"
    by (simp add: exampleAnimations_def exampleAnimationsOther_def restrictPart_def
        attackData_def attackDataArm_def attack_def)
  have h1: "\<forall>a. Some attack = Some a \<longrightarrow>
              map_option (restrictPart ''head'') (exampleAnimations (name a))
              = map_option (restrictPart ''head'') (exampleAnimationsOther (name a))"
    using t1 by simp
  have h2: "\<forall>p. None = Some p \<longrightarrow>
              map_option (restrictPart ''head'') (exampleAnimations (name p))
              = map_option (restrictPart ''head'') (exampleAnimationsOther (name p))"
    by simp
  have h3: "''head'' \<in> set [''head'']" and h4: "''head'' \<in> set [''armLeft'', ''head'']"
    by simp_all
  have swing: "map_option (restrictPart ''head'') (exampleAnimations ''swing'')
     \<noteq> map_option (restrictPart ''head'') (exampleAnimationsOther ''swing'')"
    by (simp add: exampleAnimations_def exampleAnimationsOther_def restrictPart_def
        attackData_def swingData_def)
  have dance: "exampleAnimations ''dance'' \<noteq> exampleAnimationsOther ''dance''"
    by (simp add: exampleAnimations_def exampleAnimationsOther_def)
  have v: "map_sum id (\<lambda>m. m ''head'')
         (getAnimationValues exampleAnimations 500 500 (Some attack) None [''head''])
       = Inr (Some \<lparr>x = Fin 10, y = Fin (5 / 2), rotation = Fin 0\<rparr>)"
    by (simp add: engine_defs exampleAnimations_def attack_def attackData_def)
  have t2: "map_option (restrictPart ''head'') (exampleAnimations (name attackLate))
     = map_option (restrictPart ''head'') (exampleAnimationsArm (name attackLate))"
    by (simp add: exampleAnimations_def exampleAnimationsArm_def restrictPart_def
        attackData_def attackDataArm_def attackLate_def)
  have t3: "map_option (restrictPart ''head'') (exampleAnimations (name swingCanceled))
     = map_option (restrictPart ''head'') (exampleAnimationsArm (name swingCanceled))"
    by (simp add: exampleAnimations_def exampleAnimationsArm_def swingCanceled_def)
  have k1: "\<forall>a. Some attackLate = Some a \<longrightarrow>
              map_option (restrictPart ''head'') (exampleAnimations (name a))
              = map_option (restrictPart ''head'') (exampleAnimationsArm (name a))"
    using t2 by simp
  have k2: "\<forall>p. Some swingCanceled = Some p \<longrightarrow>
              map_option (restrictPart ''head'') (exampleAnimations (name p))
              = map_option (restrictPart ''head'') (exampleAnimationsArm (name p))"
    using t3 by simp
  show ?thesis
    using part_noninterference [OF h1 h2 h3 h4, of 500 500]
      part_noninterference [OF k1 k2 h3 h4, of 600 600]
      t1 t2 t3 swing dance v
    by simp
qed

section \<open>Blending from the previous animation\<close>

lemma getAnimationKeys_frozen:
  "canceledAt p = Some c \<Longrightarrow>
   getAnimationKeys now (Some p) D (Some Old) = getAnimationKeys c (Some p) D None"
  by (simp add: getAnimationKeys_def timeElapsed_def split: option.splits)

lemma animatedPart_present:
  "animatedPart from to pb (Some d) old part =
     Inr (blendValues
            (case (case old of None \<Rightarrow> None | Some m \<Rightarrow> m part) of
               Some v \<Rightarrow> v
             | None \<Rightarrow> projr (partAt (Some d) from part))
            (projr (partAt (Some d) to part)) pb)"
  by (simp add: animatedPart_def partAt_def split: option.splits)

lemma partAt_present: "partAt (Some d) k part = Inr (projr (partAt (Some d) k part))"
  by (simp add: partAt_def split: option.splits)

text \<open>
  C5. When the crossfade guard holds (the current animation's \<open>from\<close> key is 0 and the
  previous animation's duration has not elapsed at the reference time), the value that a
  requested part is blended from is the previous animation's value at the instant of its
  cancellation: what the engine returns for the previous animation alone at reference time
  \<open>canceledAt\<close>. The part's result is the blend of that value and the current animation's
  \<open>to\<close> entry.
\<close>

theorem crossfade_from_frozen:
  assumes "animations (name a) = Some d" and "animations (name p) = Some pd"
    and "from_key (getAnimationKeys now (Some a) (Some d) None) = Fin 0"
    and "now' - createdAt p - duration p < 0"
    and "canceledAt p = Some c"
    and "part \<in> set returnKeys"
  shows "\<exists>frozen toValues.
           map_sum id (\<lambda>m. m part) (getAnimationValues animations c c (Some p) None returnKeys)
             = Inr (Some frozen)
         \<and> partAt (Some d) (to_key (getAnimationKeys now (Some a) (Some d) None)) part
             = Inr toValues
         \<and> map_sum id (\<lambda>m. m part)
               (getAnimationValues animations now now' (Some a) (Some p) returnKeys)
             = Inr (Some (blendValues frozen toValues
                     (calculateProgressBetweenKeys
                        (from_key (getAnimationKeys now (Some a) (Some d) None))
                        (to_key (getAnimationKeys now (Some a) (Some d) None))
                        (progress (getAnimationKeys now (Some a) (Some d) None)))))"
proof -
  define new where "new = getAnimationKeys now (Some a) (Some d) None"
  define old where "old = getAnimationKeys c (Some p) (Some pd) None"
  define frozen where "frozen = blendValues (projr (partAt (Some pd) (from_key old) part))
      (projr (partAt (Some pd) (to_key old) part))
      (calculateProgressBetweenKeys (from_key old) (to_key old) (progress old))"
  define toValues where "toValues = projr (partAt (Some d) (to_key new) part)"
  have ne: "returnKeys \<noteq> []" using assms(6) by auto
  have none: "calculateAnimatedValues c f t pr None D returnKeys (Some Old) bf None
                = Inr Map.empty" for f t pr D bf
    by (simp add: calculateAnimatedValues_def isOldAnimationCanceled_def)
  have alone: "getAnimationValues animations c c (Some p) None returnKeys
        = calculateAnimatedValues c (from_key old) (to_key old) (progress old)
            (Some p) (Some pd) returnKeys (Some New) None (Some Map.empty)"
    unfolding getAnimationValues_def Let_def old_def using ne assms(2) by (simp add: none)
  have first: "map_sum id (\<lambda>m. m part) (getAnimationValues animations c c (Some p) None returnKeys)
             = Inr (Some frozen)"
    by (simp add: alone calculateAnimatedValues_at [OF assms(6)] animatedPart_present frozen_def)
  define pass where "pass = calculateAnimatedValues now' (from_key old) (to_key old) (progress old)
      (Some p) (Some pd) returnKeys (Some Old) (Some (from_key new)) None"
  have pass_part: "map_sum id (\<lambda>m. m part) pass = Inr (Some frozen)"
    unfolding pass_def using assms(3,4)
    by (simp add: calculateAnimatedValues_at [OF assms(6)] animatedPart_present frozen_def
        new_def isOldAnimationCanceled_def)
  then obtain ov where ov: "pass = Inr ov" "ov part = Some frozen"
    by (cases pass) auto
  have both: "getAnimationValues animations now now' (Some a) (Some p) returnKeys
        = calculateAnimatedValues now' (from_key new) (to_key new) (progress new)
            (Some a) (Some d) returnKeys (Some New) None (Some ov)"
    unfolding getAnimationValues_def Let_def
    using ne assms(1,2) ov(1)
    by (simp add: getAnimationKeys_frozen [OF assms(5)] pass_def new_def old_def)
  have third: "map_sum id (\<lambda>m. m part)
               (getAnimationValues animations now now' (Some a) (Some p) returnKeys)
             = Inr (Some (blendValues frozen toValues
                     (calculateProgressBetweenKeys (from_key new) (to_key new) (progress new))))"
    by (simp add: both calculateAnimatedValues_at [OF assms(6)] animatedPart_present ov(2)
        toValues_def)
  have second: "partAt (Some d) (to_key new) part = Inr toValues"
    unfolding toValues_def by (rule partAt_present)
  show ?thesis
    using first second third unfolding new_def by blast
qed

text \<open>The swing canceled at half of its duration and the attack that replaced it, 100 ms later:
  the head is blended from the swing's value at 50 percent.\<close>

theorem crossfade_from_frozen_witness:
  "exampleAnimations (name attackLate) = Some attackData
   \<and> exampleAnimations (name swingCanceled) = Some swingData
   \<and> from_key (getAnimationKeys 600 (Some attackLate) (Some attackData) None) = Fin 0
   \<and> 600 - createdAt swingCanceled - duration swingCanceled < 0
   \<and> canceledAt swingCanceled = Some 500
   \<and> ''head'' \<in> set [''head'']
   \<and> map_sum id (\<lambda>m. m ''head'')
         (getAnimationValues exampleAnimations 500 500 (Some swingCanceled) None [''head''])
       = Inr (Some \<lparr>x = Fin 4, y = Fin 0, rotation = Fin 1\<rparr>)
   \<and> map_sum id (\<lambda>m. m ''head'')
         (getAnimationValues exampleAnimations 600 600 (Some attackLate) (Some swingCanceled)
            [''head''])
       = Inr (Some \<lparr>x = Fin (11 / 2), y = Fin 0, rotation = Fin (3 / 4)\<rparr>)"
proof -
  have h1: "exampleAnimations (name attackLate) = Some attackData"
    by (simp add: exampleAnimations_def attackLate_def)
  have h2: "exampleAnimations (name swingCanceled) = Some swingData"
    by (simp add: exampleAnimations_def swingCanceled_def)
  have keys: "getAnimationKeys 600 (Some attackLate) (Some attackData) None
              = \<lparr>from_key = Fin 0, to_key = Fin 40, progress = Fin 10\<rparr>"
    by (simp add: engine_defs attackLate_def attackData_def)
  have h3: "from_key (getAnimationKeys 600 (Some attackLate) (Some attackData) None) = Fin 0"
    by (simp add: keys)
  have h4: "600 - createdAt swingCanceled - duration swingCanceled < 0"
    by (simp add: swingCanceled_def)
  have h5: "canceledAt swingCanceled = Some 500" by (simp add: swingCanceled_def)
  have h6: "''head'' \<in> set [''head'']" by simp
  have alone: "map_sum id (\<lambda>m. m ''head'')
         (getAnimationValues exampleAnimations 500 500 (Some swingCanceled) None [''head''])
       = Inr (Some \<lparr>x = Fin 4, y = Fin 0, rotation = Fin 1\<rparr>)"
    by (simp add: engine_defs exampleAnimations_def swingCanceled_def swingData_def)
  have to: "partAt (Some attackData) (Fin 40) ''head''
            = Inr \<lparr>x = Fin 10, y = Fin 0, rotation = Fin 0\<rparr>"
    by (simp add: partAt_def attackData_def)
  have pb: "calculateProgressBetweenKeys (Fin 0) (Fin 40) (Fin 10) = Fin (1 / 4)"
    by (simp add: calculateProgressBetweenKeys_def jsub_def)
  from crossfade_from_frozen [OF h1 h2 h3 h4 h5 h6]
  obtain frozen toValues where
    "map_sum id (\<lambda>m. m ''head'')
       (getAnimationValues exampleAnimations 500 500 (Some swingCanceled) None [''head''])
     = Inr (Some frozen)"
    "partAt (Some attackData) (Fin 40) ''head'' = Inr toValues"
    "map_sum id (\<lambda>m. m ''head'')
       (getAnimationValues exampleAnimations 600 600 (Some attackLate) (Some swingCanceled)
          [''head''])
     = Inr (Some (blendValues frozen toValues (Fin (1 / 4))))"
    unfolding keys by (auto simp: pb)
  then have "map_sum id (\<lambda>m. m ''head'')
       (getAnimationValues exampleAnimations 600 600 (Some attackLate) (Some swingCanceled)
          [''head''])
     = Inr (Some \<lparr>x = Fin (11 / 2), y = Fin 0, rotation = Fin (3 / 4)\<rparr>)"
    by (auto simp: alone to blendValues_def jsub_def)
  then show ?thesis using h1 h2 h3 h4 h5 h6 alone by simp
qed

section \<open>The progress of an animation\<close>

lemma progress_of_elapsed:
  assumes "duration a \<noteq> 0" and "timeElapsed now a ty = Fin e"
  shows "progress (getAnimationKeys now (Some a) (Some d) ty)
         = Fin (min (100 * e / of_int (duration a)) 100)"
proof -
  define q where "q = 100 * e / of_int (duration a)"
  have "jmul (jdiv (timeElapsed now a ty) (num (duration a))) (Fin 100) = Fin q"
    using assms by (simp add: num_def q_def)
  then have "progress (getAnimationKeys now (Some a) (Some d) ty) = Fin (min q 100)"
    by (simp add: getAnimationKeys_def Let_def min_def)
  then show ?thesis by (simp add: q_def)
qed

lemma timeElapsed_live: "ty \<noteq> Some Old \<Longrightarrow> timeElapsed now a ty = Fin (of_int (now - createdAt a))"
  by (simp add: timeElapsed_def jsub_def num_def)

lemma timeElapsed_old:
  "canceledAt a = Some c \<Longrightarrow> timeElapsed now a (Some Old) = Fin (of_int (c - createdAt a))"
  by (simp add: timeElapsed_def jsub_def num_def)



lemma saturation_progress:
  assumes "0 < duration a" and "duration a \<le> now - createdAt a"
  shows "progress (getAnimationKeys now (Some a) (Some d) None) = Fin 100"
proof -
  have "real_of_int (duration a) \<le> real_of_int (now - createdAt a)"
    using assms(2) by linarith
  then have "100 \<le> 100 * real_of_int (now - createdAt a) / real_of_int (duration a)"
    using assms(1) by (simp add: le_divide_eq)
  moreover have "duration a \<noteq> 0" using assms(1) by simp
  ultimately show ?thesis
    by (simp add: progress_of_elapsed timeElapsed_live min_def)
qed

lemma progress_live:
  assumes "duration a \<noteq> 0"
  shows "progress (getAnimationKeys now (Some a) (Some d) None)
         = Fin (min (100 * of_int (now - createdAt a) / of_int (duration a)) 100)"
  by (rule progress_of_elapsed [OF assms]) (simp add: timeElapsed_live)


lemma progress_absent:
  "progress (getAnimationKeys now animation None ty) = Fin 0"
  "progress (getAnimationKeys now None animationData ty) = Fin 0"
  by (simp_all add: getAnimationKeys_def split: option.splits)




text \<open>
  C7, as the code has it. The resolver has no case for \<open>duration \<le> 0\<close>. With the keyframe
  table or the descriptor absent the progress is 0, whatever the duration. With the table
  present and \<open>duration = 0\<close>, the division by zero gives \<open>+Infinity\<close> when \<open>elapsed > 0\<close>,
  which the clamp turns into 100. With the table present and \<open>duration < 0\<close> the progress is
  100 when \<open>elapsed \<le> duration\<close>, and it is at most 0, and negative for \<open>elapsed > 0\<close>, when
  \<open>elapsed \<ge> 0\<close>. Here \<open>elapsed\<close> is \<open>now - createdAt\<close> for the current descriptor; for the
  previous descriptor the resolver returns what it returns for the current one at the
  reference time \<open>canceledAt\<close>, so \<open>elapsed\<close> is \<open>canceledAt - createdAt\<close>.
\<close>

theorem nonpositive_duration_progress:
  "(duration a = 0 \<longrightarrow> createdAt a < now \<longrightarrow>
      progress (getAnimationKeys now (Some a) (Some d) None) = Fin 100)
   \<and> (duration a < 0 \<longrightarrow> now - createdAt a \<le> duration a \<longrightarrow>
      progress (getAnimationKeys now (Some a) (Some d) None) = Fin 100)
   \<and> (duration a < 0 \<longrightarrow> createdAt a \<le> now \<longrightarrow>
      jge (Fin 0) (progress (getAnimationKeys now (Some a) (Some d) None)))
   \<and> (duration a < 0 \<longrightarrow> createdAt a < now \<longrightarrow>
      jgt (Fin 0) (progress (getAnimationKeys now (Some a) (Some d) None)))
   \<and> (\<forall>c. canceledAt a = Some c \<longrightarrow>
        getAnimationKeys now (Some a) (Some d) (Some Old)
          = getAnimationKeys c (Some a) (Some d) None)
   \<and> progress (getAnimationKeys now (Some a) None ty) = Fin 0
   \<and> progress (getAnimationKeys now None animationData ty) = Fin 0"
proof (intro conjI allI impI)
  assume "duration a = 0" and "createdAt a < now"
  then show "progress (getAnimationKeys now (Some a) (Some d) None) = Fin 100"
    by (simp add: getAnimationKeys_def Let_def timeElapsed_def jsub_def num_def inf_signed_def)
next
  assume neg: "duration a < 0" and early: "now - createdAt a \<le> duration a"
  have nz: "duration a \<noteq> 0" using neg by simp
  have "real_of_int (now - createdAt a) \<le> real_of_int (duration a)"
    using early by linarith
  moreover have "real_of_int (duration a) < 0" using neg by simp
  ultimately have "1 \<le> real_of_int (now - createdAt a) / real_of_int (duration a)"
    by (simp add: le_divide_eq)
  then have "100 * 1 \<le> 100 * (real_of_int (now - createdAt a) / real_of_int (duration a))"
    by (rule mult_left_mono) simp
  then have "100 \<le> 100 * real_of_int (now - createdAt a) / real_of_int (duration a)"
    by (simp only: mult_1_right times_divide_eq_right)
  then show "progress (getAnimationKeys now (Some a) (Some d) None) = Fin 100"
    by (simp add: progress_live [OF nz] min_def)
next
  assume neg: "duration a < 0" and "createdAt a \<le> now"
  have nz: "duration a \<noteq> 0" using neg by simp
  have "0 \<le> real_of_int (now - createdAt a)" using \<open>createdAt a \<le> now\<close> by simp
  moreover have "real_of_int (duration a) < 0" using neg by simp
  ultimately have "100 * real_of_int (now - createdAt a) / real_of_int (duration a) \<le> 0"
    by (simp add: divide_nonneg_neg)
  then show "jge (Fin 0) (progress (getAnimationKeys now (Some a) (Some d) None))"
    by (simp add: progress_live [OF nz] min_def)
next
  assume neg: "duration a < 0" and "createdAt a < now"
  have nz: "duration a \<noteq> 0" using neg by simp
  have "0 < real_of_int (now - createdAt a)" using \<open>createdAt a < now\<close> by simp
  moreover have "real_of_int (duration a) < 0" using neg by simp
  ultimately have "100 * real_of_int (now - createdAt a) / real_of_int (duration a) < 0"
    by (simp add: divide_pos_neg)
  then show "jgt (Fin 0) (progress (getAnimationKeys now (Some a) (Some d) None))"
    by (simp add: progress_live [OF nz] min_def)
next
  fix c assume "canceledAt a = Some c"
  then show "getAnimationKeys now (Some a) (Some d) (Some Old)
             = getAnimationKeys c (Some a) (Some d) None"
    by (rule getAnimationKeys_frozen)
next
  show "progress (getAnimationKeys now (Some a) None ty) = Fin 0"
    by (rule progress_absent)
  show "progress (getAnimationKeys now None animationData ty) = Fin 0"
    by (rule progress_absent)
qed

text \<open>
  A duration of zero after the creation; a negative duration before the creation by more
  than the duration, and after the creation; a canceled descriptor; a missing table.
\<close>

theorem nonpositive_duration_progress_witness:
  "duration attackInstant = 0 \<and> createdAt attackInstant < 500
   \<and> progress (getAnimationKeys 500 (Some attackInstant) (Some attackData) None) = Fin 100
   \<and> duration attackBackwards < 0
   \<and> - 2000 - createdAt attackBackwards \<le> duration attackBackwards
   \<and> progress (getAnimationKeys (- 2000) (Some attackBackwards) (Some attackData) None) = Fin 100
   \<and> createdAt attackBackwards < 500
   \<and> jgt (Fin 0) (progress (getAnimationKeys 500 (Some attackBackwards) (Some attackData) None))
   \<and> jge (Fin 0) (progress (getAnimationKeys 500 (Some attackBackwards) (Some attackData) None))
   \<and> canceledAt swingCanceled = Some 500
   \<and> getAnimationKeys 900 (Some swingCanceled) (Some swingData) (Some Old)
       = getAnimationKeys 500 (Some swingCanceled) (Some swingData) None
   \<and> progress (getAnimationKeys 500 (Some attackInstant) None None) = Fin 0"
proof -
  have h1: "duration attackInstant = 0" "createdAt attackInstant < 500"
    by (simp_all add: attackInstant_def)
  have h2: "duration attackBackwards < 0"
    "- 2000 - createdAt attackBackwards \<le> duration attackBackwards"
    "createdAt attackBackwards < 500" "createdAt attackBackwards \<le> 500"
    by (simp_all add: attackBackwards_def)
  have h3: "canceledAt swingCanceled = Some 500" by (simp add: swingCanceled_def)
  show ?thesis
    using nonpositive_duration_progress [of attackInstant 500 attackData None None]
      nonpositive_duration_progress [of attackBackwards "- 2000" attackData None None]
      nonpositive_duration_progress [of attackBackwards 500 attackData None None]
      nonpositive_duration_progress [of swingCanceled 900 swingData None None]
      h1 h2 h3
    by simp
qed

text \<open>A negative duration gives a negative progress at a later reference time, and a duration
  of zero gives \<open>NaN\<close> at the instant of creation.\<close>

theorem nonpositive_duration_counterexample:
  "duration attackBackwards \<le> 0
   \<and> progress (getAnimationKeys 500 (Some attackBackwards) (Some attackData) None) = Fin (- 50)
   \<and> progress (getAnimationKeys 500 (Some attackBackwards) (Some attackData) None) \<noteq> Fin 100
   \<and> duration attackInstant \<le> 0
   \<and> progress (getAnimationKeys 0 (Some attackInstant) (Some attackData) None) = NaN
   \<and> progress (getAnimationKeys 0 (Some attackInstant) (Some attackData) None) \<noteq> Fin 100"
  by (simp add: engine_defs attackBackwards_def attackInstant_def attackData_def)

section \<open>The bracketing keys\<close>

lemma jge_num_mono: "jge p (num k') \<Longrightarrow> k \<le> k' \<Longrightarrow> jge p (num k)"
  by (cases p) (auto simp: num_def)

lemma keysLoop_none:
  "\<forall>k\<in>set ks. \<not> jge p (num k) \<Longrightarrow> keysLoop p ks ft = ft"
  by (induction ks arbitrary: ft) auto

lemma spec_from_none: "\<forall>k\<in>set ks. \<not> jge p (num k) \<Longrightarrow> spec_from ks p = Fin 0"
  by (simp add: spec_from_def filter_empty_conv)

lemma Min_sorted_Cons:
  assumes "sorted_wrt (<) (k # ks)"
  shows "Min (set (k # ks)) = k"
proof -
  have "\<forall>k'\<in>set ks. k < k'" using assms by simp
  then show ?thesis by (intro Min_eqI) auto
qed

lemma spec_from_Cons_later:
  assumes "sorted_wrt (<) (k # ks)" and "jge p (num k)" and "\<exists>k'\<in>set ks. jge p (num k')"
  shows "spec_from (k # ks) p = spec_from ks p"
    and "\<exists>m\<in>set ks. spec_from ks p = num m"
proof -
  define below where "below = filter (\<lambda>k. jge p (num k)) ks"
  have ne: "below \<noteq> []" using assms(3) by (auto simp: below_def filter_empty_conv)
  have "Max (set below) \<in> set below" using ne by (intro Max_in) auto
  then have mem: "Max (set below) \<in> set ks" by (simp add: below_def)
  moreover have "\<forall>k'\<in>set ks. k < k'" using assms(1) by simp
  ultimately have "k < Max (set below)" by blast
  then have "Max (insert k (set below)) = Max (set below)"
    using ne by (simp add: max_def)
  then show "spec_from (k # ks) p = spec_from ks p"
    using assms(2) ne by (simp add: spec_from_def below_def Let_def)
  show "\<exists>m\<in>set ks. spec_from ks p = num m"
    using mem ne by (auto simp: spec_from_def below_def Let_def)
qed

lemma spec_to_Cons_later:
  assumes "sorted_wrt (<) (k # ks)" and "m \<in> set ks"
  shows "spec_to (k # ks) (num m) = spec_to ks (num m)"
proof -
  have "k < m" using assms by auto
  then show ?thesis by (simp add: spec_to_def num_def)
qed

lemma spec_to_head:
  assumes "sorted_wrt (<) (k # ks)"
  shows "spec_to (k # ks) (num k) = (case ks of [] \<Rightarrow> Fin 100 | k' # _ \<Rightarrow> num k')"
proof -
  have gt: "\<forall>k'\<in>set ks. k < k'" using assms by simp
  then have "filter (\<lambda>k'. jgt (num k') (num k)) ks = ks"
    by (simp add: num_def)
  then have "filter (\<lambda>k'. jgt (num k') (num k)) (k # ks) = ks"
    by (simp add: num_def)
  moreover have "Min (set (k' # ks')) = k'" if "ks = k' # ks'" for k' ks'
    using assms that by (intro Min_sorted_Cons) simp
  ultimately show ?thesis
    by (simp add: spec_to_def split: list.splits)
qed

lemma keysLoop_sorted:
  assumes "sorted_wrt (<) ks" and "\<exists>k\<in>set ks. jge p (num k)"
  shows "keysLoop p ks ft = (spec_from ks p, spec_to ks (spec_from ks p))"
  using assms
proof (induction ks arbitrary: ft)
  case Nil
  then show ?case by simp
next
  case (Cons k ks)
  have gt: "\<forall>k'\<in>set ks. k < k'" and sorted: "sorted_wrt (<) ks"
    using Cons.prems(1) by simp_all
  have head: "jge p (num k)"
  proof -
    obtain k' where "k' \<in> set (k # ks)" "jge p (num k')" using Cons.prems(2) by blast
    moreover have "k \<le> k'" using gt calculation(1) by auto
    ultimately show ?thesis by (blast intro: jge_num_mono)
  qed
  show ?case
  proof (cases "\<exists>k'\<in>set ks. jge p (num k')")
    case True
    obtain m where m: "m \<in> set ks" "spec_from ks p = num m"
      using spec_from_Cons_later(2) [OF Cons.prems(1) head True] by blast
    show ?thesis
      using head Cons.IH [OF sorted True]
        spec_from_Cons_later(1) [OF Cons.prems(1) head True]
        spec_to_Cons_later [OF Cons.prems(1) m(1)] m(2)
      by simp
  next
    case False
    then have none: "\<forall>k'\<in>set ks. \<not> jge p (num k')" by blast
    have "spec_from (k # ks) p = num k"
      using head none by (simp add: spec_from_def filter_empty_conv)
    then show ?thesis
      using head spec_to_head [OF Cons.prems(1)] by (simp add: keysLoop_none [OF none])
  qed
qed

text \<open>
  C3, as the code has it. For a keyframe table whose keys are unique and ascending, \<open>from\<close>
  is the greatest key not above the progress, or 0 when there is none. When some key is not
  above the progress, \<open>to\<close> is the key after \<open>from\<close>, or 100 when \<open>from\<close> is the last key.
  When no key is, \<open>to\<close> is the first key of the table (\<open>NaN\<close> for an empty table); for a
  non-empty table and a progress of at least 0 that is again the key after \<open>from\<close>.
\<close>

theorem resolver_bracket:
  assumes "sorted_wrt (<) (map fst d)"
  shows "from_key (getAnimationKeys now (Some a) (Some d) ty)
           = spec_from (map fst d) (progress (getAnimationKeys now (Some a) (Some d) ty))
       \<and> ((\<exists>k\<in>set (map fst d). jge (progress (getAnimationKeys now (Some a) (Some d) ty)) (num k)) \<longrightarrow>
            to_key (getAnimationKeys now (Some a) (Some d) ty)
              = spec_to (map fst d) (from_key (getAnimationKeys now (Some a) (Some d) ty)))
       \<and> ((\<forall>k\<in>set (map fst d). \<not> jge (progress (getAnimationKeys now (Some a) (Some d) ty)) (num k)) \<longrightarrow>
            to_key (getAnimationKeys now (Some a) (Some d) ty)
              = (case map fst d of [] \<Rightarrow> NaN | k # _ \<Rightarrow> num k))
       \<and> (d \<noteq> [] \<and> jge (progress (getAnimationKeys now (Some a) (Some d) ty)) (Fin 0) \<longrightarrow>
            to_key (getAnimationKeys now (Some a) (Some d) ty)
              = spec_to (map fst d) (from_key (getAnimationKeys now (Some a) (Some d) ty)))"
proof -
  define keys where "keys = map fst d"
  define r where "r = getAnimationKeys now (Some a) (Some d) ty"
  define p where "p = progress r"
  have sorted: "sorted_wrt (<) keys" using assms by (simp add: keys_def)
  have ft: "(from_key r, to_key r)
            = keysLoop p keys (Fin 0, case keys of [] \<Rightarrow> NaN | k # _ \<Rightarrow> num k)"
    by (simp add: r_def p_def keys_def getAnimationKeys_def Let_def)
  have some: "from_key r = spec_from keys p \<and> to_key r = spec_to keys (from_key r)"
    if "\<exists>k\<in>set keys. jge p (num k)"
    using ft keysLoop_sorted [OF sorted that] by simp
  have none: "from_key r = spec_from keys p
              \<and> to_key r = (case keys of [] \<Rightarrow> NaN | k # _ \<Rightarrow> num k)"
    if "\<forall>k\<in>set keys. \<not> jge p (num k)"
    using ft keysLoop_none [OF that] spec_from_none [OF that] by simp
  have nonneg: "to_key r = spec_to keys (from_key r)" if "d \<noteq> []" "jge p (Fin 0)"
  proof (cases "\<exists>k\<in>set keys. jge p (num k)")
    case True
    then show ?thesis using some by simp
  next
    case False
    then have no: "\<forall>k\<in>set keys. \<not> jge p (num k)" by blast
    have "keys \<noteq> []" using that(1) by (simp add: keys_def)
    then obtain k ks where ks: "keys = k # ks" by (cases keys) auto
    have gt: "\<forall>k'\<in>set ks. k < k'" using sorted ks by simp
    have "0 < k" using no that(2) ks by (cases p) (auto simp: num_def)
    then have "\<forall>k'\<in>set keys. jgt (num k') (Fin 0)"
      using gt ks by (auto simp: num_def)
    then have all: "filter (\<lambda>k'. jgt (num k') (Fin 0)) keys = keys"
      by (simp add: filter_id_conv)
    have "Min (set keys) = k" unfolding ks using sorted ks by (intro Min_sorted_Cons) simp
    then have "spec_to keys (Fin 0) = num k"
      using all ks by (simp add: spec_to_def)
    moreover have "from_key r = Fin 0" using none [OF no] spec_from_none [OF no] by simp
    ultimately show ?thesis using none [OF no] ks by simp
  qed
  show ?thesis
    using some none nonneg unfolding keys_def r_def p_def by blast
qed


text \<open>The worked example at half of the duration, and a reference time before the creation.\<close>

theorem resolver_bracket_witness:
  "sorted_wrt (<) (map fst attackData)
   \<and> (\<exists>k\<in>set (map fst attackData).
         jge (progress (getAnimationKeys 500 (Some attack) (Some attackData) None)) (num k))
   \<and> from_key (getAnimationKeys 500 (Some attack) (Some attackData) None) = Fin 40
   \<and> to_key (getAnimationKeys 500 (Some attack) (Some attackData) None) = Fin 60
   \<and> spec_from (map fst attackData) (Fin 50) = Fin 40
   \<and> spec_to (map fst attackData) (Fin 40) = Fin 60
   \<and> attackData \<noteq> []
   \<and> jge (progress (getAnimationKeys 500 (Some attack) (Some attackData) None)) (Fin 0)
   \<and> \<not> (\<exists>k\<in>set (map fst attackData).
         jge (progress (getAnimationKeys 0 (Some attackLate) (Some attackData) None)) (num k))
   \<and> from_key (getAnimationKeys 0 (Some attackLate) (Some attackData) None) = Fin 0
   \<and> to_key (getAnimationKeys 0 (Some attackLate) (Some attackData) None) = Fin 0"
proof -
  have s: "sorted_wrt (<) (map fst attackData)" by (simp add: attackData_def)
  have p1: "progress (getAnimationKeys 500 (Some attack) (Some attackData) None) = Fin 50"
    by (simp add: engine_defs attack_def attackData_def)
  have p2: "progress (getAnimationKeys 0 (Some attackLate) (Some attackData) None) = Fin (- 50)"
    by (simp add: engine_defs attackLate_def attackData_def)
  have k: "map fst attackData = [0, 40, 60]" by (simp add: attackData_def)
  have f: "spec_from [0, 40, 60] (Fin 50) = Fin 40" "spec_from [0, 40, 60] (Fin (- 50)) = Fin 0"
    by (simp_all add: spec_from_def num_def)
  have t: "spec_to [0, 40, 60] (Fin 40) = Fin 60"
    by (simp add: spec_to_def num_def)
  have ne: "attackData \<noteq> []" by (simp add: attackData_def)
  show ?thesis
    using resolver_bracket [OF s, of 500 attack None] resolver_bracket [OF s, of 0 attackLate None]
      ne
    by (simp add: p1 p2 k f t num_def)
qed

text \<open>Before the creation the progress is negative and no key is below it: \<open>from\<close> is 0, a
  key of the table, and \<open>to\<close> is 0 as well, not the key 40 that follows it.\<close>

theorem resolver_bracket_counterexample:
  "sorted_wrt (<) (map fst attackData)
   \<and> from_key (getAnimationKeys 0 (Some attackLate) (Some attackData) None) = Fin 0
   \<and> to_key (getAnimationKeys 0 (Some attackLate) (Some attackData) None) = Fin 0
   \<and> spec_to (map fst attackData)
        (from_key (getAnimationKeys 0 (Some attackLate) (Some attackData) None)) = Fin 40
   \<and> to_key (getAnimationKeys 0 (Some attackLate) (Some attackData) None)
       \<noteq> spec_to (map fst attackData)
           (from_key (getAnimationKeys 0 (Some attackLate) (Some attackData) None))"
  by (simp add: engine_defs attackLate_def attackData_def spec_to_def)

section \<open>Saturation\<close>

lemma getAnimationKeys_keysLoop:
  "(from_key (getAnimationKeys now (Some a) (Some d) ty),
    to_key (getAnimationKeys now (Some a) (Some d) ty))
   = keysLoop (progress (getAnimationKeys now (Some a) (Some d) ty)) (map fst d)
       (Fin 0, case map fst d of [] \<Rightarrow> NaN | k # _ \<Rightarrow> num k)"
  by (simp add: getAnimationKeys_def Let_def)

lemma sorted_le_last:
  "sorted_wrt (<) ks \<Longrightarrow> k \<in> set ks \<Longrightarrow> k \<le> last (ks :: int list)"
proof (induction ks)
  case Nil
  then show ?case by simp
next
  case (Cons h ks)
  show ?case
  proof (cases "ks = []")
    case True
    with Cons.prems show ?thesis by simp
  next
    case False
    then have "last ks \<in> set ks" by simp
    then have "h < last ks" using Cons.prems(1) by simp
    moreover have "k \<le> last ks" if "k \<in> set ks"
      using Cons.IH Cons.prems(1) that by simp
    ultimately show ?thesis using Cons.prems(2) False by auto
  qed
qed

lemma saturation_keys:
  assumes sorted: "sorted_wrt (<) (map fst d)" and ne: "d \<noteq> []"
    and last: "last (map fst d) < 100"
    and prog: "progress (getAnimationKeys now (Some a) (Some d) ty) = Fin 100"
  shows "from_key (getAnimationKeys now (Some a) (Some d) ty) = num (last (map fst d))"
    and "to_key (getAnimationKeys now (Some a) (Some d) ty) = Fin 100"
proof -
  define keys where "keys = map fst d"
  have kne: "keys \<noteq> []" using ne by (simp add: keys_def)
  have le: "\<forall>k\<in>set keys. k \<le> last keys"
    using sorted sorted_le_last unfolding keys_def by blast
  have all: "\<forall>k\<in>set keys. jge (Fin 100) (num k)"
    using le last by (auto simp: num_def keys_def)
  have ex: "\<exists>k\<in>set keys. jge (Fin 100) (num k)"
    using all kne by (cases keys) auto
  have "filter (\<lambda>k. jge (Fin 100) (num k)) keys = keys"
    using all by (simp add: filter_id_conv)
  moreover have "Max (set keys) = last keys"
    using le kne by (intro Max_eqI) auto
  ultimately have sfrom: "spec_from keys (Fin 100) = num (last keys)"
    using kne by (simp add: spec_from_def)
  have "filter (\<lambda>k. jgt (num k) (num (last keys))) keys = []"
    using le by (auto simp: filter_empty_conv num_def)
  then have sto: "spec_to keys (num (last keys)) = Fin 100"
    by (simp add: spec_to_def)
  have "(from_key (getAnimationKeys now (Some a) (Some d) ty),
         to_key (getAnimationKeys now (Some a) (Some d) ty))
        = (num (last keys), Fin 100)"
    using getAnimationKeys_keysLoop [of now a d ty] sorted ex
    by (simp add: prog keysLoop_sorted sfrom sto flip: keys_def)
  then show "from_key (getAnimationKeys now (Some a) (Some d) ty) = num (last (map fst d))"
    and "to_key (getAnimationKeys now (Some a) (Some d) ty) = Fin 100"
    by (simp_all add: keys_def)
qed

lemma isFin_Fin: "isFin n \<Longrightarrow> \<exists>r. n = Fin r"
  by (cases n) auto

lemma blendValues_to_empty:
  assumes "finitePart v"
  shows "blendValues v emptyValues (Fin 1) = emptyValues"
proof -
  obtain a b c where "x v = Fin a" "y v = Fin b" "rotation v = Fin c"
    using assms isFin_Fin unfolding finitePart_def by blast
  then show ?thesis by (simp add: blendValues_def emptyValues_def jsub_def)
qed

lemma partAt_finite:
  assumes "finiteData d"
  shows "finitePart (projr (partAt (Some d) k part))"
proof (cases "keyframeAt d k")
  case None
  then show ?thesis by (simp add: partAt_def finitePart_def emptyValues_def)
next
  case (Some frame)
  then obtain i where "map_of d i = Some frame"
    by (cases k) (auto split: if_splits)
  then have mem: "(i, frame) \<in> set d" by (rule map_of_SomeD)
  show ?thesis
  proof (cases "frame part")
    case None
    with Some show ?thesis by (simp add: partAt_def finitePart_def emptyValues_def)
  next
    case (Some v)
    then have "v \<in> ran frame" by (rule ranI)
    then have "finitePart v" using assms mem unfolding finiteData_def by blast
    with Some \<open>keyframeAt d k = Some frame\<close> show ?thesis by (simp add: partAt_def)
  qed
qed

lemma partAt_no_key:
  assumes "k \<notin> fst ` set d"
  shows "partAt (Some d) (num k) part = Inr emptyValues"
proof -
  have "map_of d k = None" using assms by (simp add: map_of_eq_None_iff)
  then show ?thesis by (simp add: partAt_def num_def)
qed

lemma calculateAnimatedValues_present:
  assumes "\<not> (ty = Some Old \<and> \<not> (baseFrom = Some (Fin 0) \<and> isOldAnimationCanceled now animation))"
  shows "calculateAnimatedValues now from to prog animation (Some d) returnKeys ty baseFrom old
         = Inr (\<lambda>k. if k \<in> set returnKeys
                     then Some (projr (animatedPart from to
                                  (calculateProgressBetweenKeys from to prog) (Some d) old k))
                     else None)"
  using assms
  by (auto simp: calculateAnimatedValues_def returnKeysLoop_result animatedPart_isl Let_def)

lemma saturation_result:
  assumes table: "animations (name a) = Some d"
    and dur: "0 < duration a" and late: "duration a \<le> now - createdAt a"
    and sorted: "sorted_wrt (<) (map fst d)" and ne: "d \<noteq> []"
    and last: "last (map fst d) < 100"
    and fin: "finiteData d"
    and guard: "last (map fst d) \<noteq> 0 \<or> \<not> isOldAnimationCanceled now' oldAnimation"
  shows "getAnimationValues animations now now' (Some a) oldAnimation returnKeys
         = Inr (\<lambda>k. if k \<in> set returnKeys then Some emptyValues else None)"
proof (cases "returnKeys = []")
  case True
  then show ?thesis by (simp add: getAnimationValues_def)
next
  case False
  define l where "l = last (map fst d)"
  define new where "new = getAnimationKeys now (Some a) (Some d) None"
  have prog: "progress new = Fin 100"
    unfolding new_def by (rule saturation_progress [OF dur late])
  have kfrom: "from_key new = num l" and kto: "to_key new = Fin 100"
    unfolding new_def l_def using saturation_keys [OF sorted ne last] prog [unfolded new_def]
    by simp_all
  have "from_key new = Fin 0 \<longleftrightarrow> l = 0" by (simp add: kfrom num_def)
  then have noguard: "\<not> (from_key new = Fin 0 \<and> isOldAnimationCanceled now' oldAnimation)"
    using guard by (auto simp: l_def)
  have pass: "calculateAnimatedValues now' f t pr oldAnimation D returnKeys (Some Old)
                (Some (from_key new)) None = Inr Map.empty" for f t pr D
    using noguard by (simp add: calculateAnimatedValues_def)
  have pb: "calculateProgressBetweenKeys (num l) (Fin 100) (Fin 100) = Fin 1"
    using last calculateProgressBetweenKeys_Fin [of 100 "of_int l" 100]
    by (simp add: num_def l_def)
  have "100 \<notin> fst ` set d"
  proof
    assume "100 \<in> fst ` set d"
    then have "100 \<in> set (map fst d)" by simp
    then have "100 \<le> last (map fst d)" using sorted sorted_le_last by blast
    with last show False by simp
  qed
  then have toValues: "partAt (Some d) (Fin 100) part = Inr emptyValues" for part
    using partAt_no_key [of 100 d part] by (simp add: num_def)
  have part: "animatedPart (num l) (Fin 100) (Fin 1) (Some d) (Some Map.empty) part
              = Inr emptyValues" for part
    by (simp add: animatedPart_present toValues blendValues_to_empty partAt_finite [OF fin])
  have "getAnimationValues animations now now' (Some a) oldAnimation returnKeys
        = calculateAnimatedValues now' (from_key new) (to_key new) (progress new) (Some a)
            (Some d) returnKeys (Some New) None (Some Map.empty)"
    unfolding getAnimationValues_def Let_def using False table
    by (simp add: pass [unfolded new_def] new_def)
  also have "\<dots> = Inr (\<lambda>k. if k \<in> set returnKeys then Some emptyValues else None)"
    by (simp add: calculateAnimatedValues_present kfrom kto prog pb part cong: if_cong)
  finally show ?thesis .
qed

text \<open>
  C8, as the code has it. For a current animation with \<open>duration > 0\<close> and
  \<open>now - createdAt \<ge> duration\<close> the progress is 100. On a table with unique ascending keys
  whose last key is below 100, \<open>from\<close> is the last key and \<open>to\<close> is 100, a key the table
  does not have: the blend factor is 1 and every requested part gets the neutral
  \<open>{x: 0, y: 0, rotation: 0}\<close>, not the entry of the last key. This holds for finite table
  values and with no crossfade (the last key is not 0, or the guard on the previous animation
  fails). Every later reference time gives the same result.
\<close>

theorem saturation_returns_to_neutral:
  assumes "animations (name a) = Some d"
    and "0 < duration a" and "duration a \<le> now - createdAt a"
    and "sorted_wrt (<) (map fst d)" and "d \<noteq> []"
    and "last (map fst d) < 100"
    and "finiteData d"
    and "last (map fst d) \<noteq> 0 \<or> \<not> isOldAnimationCanceled now' oldAnimation"
  shows "progress (getAnimationKeys now (Some a) (Some d) None) = Fin 100
       \<and> from_key (getAnimationKeys now (Some a) (Some d) None) = num (last (map fst d))
       \<and> to_key (getAnimationKeys now (Some a) (Some d) None) = Fin 100
       \<and> getAnimationValues animations now now' (Some a) oldAnimation returnKeys
           = Inr (\<lambda>k. if k \<in> set returnKeys then Some emptyValues else None)
       \<and> (\<forall>later later'. now \<le> later \<and> now' \<le> later' \<longrightarrow>
            getAnimationValues animations later later' (Some a) oldAnimation returnKeys
              = getAnimationValues animations now now' (Some a) oldAnimation returnKeys)"
proof (intro conjI allI impI)
  show prog: "progress (getAnimationKeys now (Some a) (Some d) None) = Fin 100"
    by (rule saturation_progress [OF assms(2,3)])
  show "from_key (getAnimationKeys now (Some a) (Some d) None) = num (last (map fst d))"
    by (rule saturation_keys(1) [OF assms(4,5,6) prog])
  show "to_key (getAnimationKeys now (Some a) (Some d) None) = Fin 100"
    by (rule saturation_keys(2) [OF assms(4,5,6) prog])
  show here: "getAnimationValues animations now now' (Some a) oldAnimation returnKeys
           = Inr (\<lambda>k. if k \<in> set returnKeys then Some emptyValues else None)"
    by (rule saturation_result [where animations = animations and a = a and d = d, OF assms])
  show "getAnimationValues animations later later' (Some a) oldAnimation returnKeys
        = getAnimationValues animations now now' (Some a) oldAnimation returnKeys"
    if "now \<le> later \<and> now' \<le> later'" for later later'
  proof -
    have late: "duration a \<le> later - createdAt a" using assms(3) that by simp
    have guard: "last (map fst d) \<noteq> 0 \<or> \<not> isOldAnimationCanceled later' oldAnimation"
      using assms(8) that by (auto simp: isOldAnimationCanceled_def split: option.splits)
    show ?thesis
      using saturation_result [where animations = animations and a = a and d = d,
          OF assms(1,2) late assms(4,5,6,7) guard] here
      by simp
  qed
qed

text \<open>The worked example at the end of its duration.\<close>

theorem saturation_returns_to_neutral_witness:
  "exampleAnimations (name attack) = Some attackData
   \<and> 0 < duration attack \<and> duration attack \<le> 1000 - createdAt attack
   \<and> sorted_wrt (<) (map fst attackData) \<and> attackData \<noteq> []
   \<and> last (map fst attackData) < 100
   \<and> finiteData attackData
   \<and> last (map fst attackData) \<noteq> 0
   \<and> getAnimationKeys 1000 (Some attack) (Some attackData) None
       = \<lparr>from_key = Fin 60, to_key = Fin 100, progress = Fin 100\<rparr>
   \<and> map_sum id (\<lambda>m. m ''head'')
         (getAnimationValues exampleAnimations 1000 1000 (Some attack) (Some swingCanceled) [''head''])
       = Inr (Some emptyValues)
   \<and> getAnimationValues exampleAnimations 5000 5000 (Some attack) (Some swingCanceled) [''head'']
       = getAnimationValues exampleAnimations 1000 1000 (Some attack) (Some swingCanceled) [''head'']"
proof -
  have h1: "exampleAnimations (name attack) = Some attackData"
    by (simp add: exampleAnimations_def attack_def)
  have h2: "0 < duration attack" and h3: "duration attack \<le> 1000 - createdAt attack"
    by (simp_all add: attack_def)
  have h4: "sorted_wrt (<) (map fst attackData)" and h5: "attackData \<noteq> []"
    and h6: "last (map fst attackData) < 100"
    by (simp_all add: attackData_def)
  have h7: "finiteData attackData"
    by (simp add: finiteData_def attackData_def finitePart_def)
  have h8: "last (map fst attackData) \<noteq> 0 \<or> \<not> isOldAnimationCanceled 1000 (Some swingCanceled)"
    by (simp add: attackData_def)
  have l: "last (map fst attackData) = 60" by (simp add: attackData_def)
  show ?thesis
    using saturation_returns_to_neutral [where animations = exampleAnimations and a = attack
          and d = attackData and returnKeys = "[''head'']", OF h1 h2 h3 h4 h5 h6 h7 h8]
      h1 h2 h3 h4 h5 h6 h7
    by (simp add: l num_def)
qed

text \<open>At the end of the duration \<open>from\<close> is the last key 60, not 100, and the head is at the
  neutral value, not at the entry of the last key.\<close>

theorem saturation_counterexample:
  "duration attack \<le> 1000 - createdAt attack
   \<and> from_key (getAnimationKeys 1000 (Some attack) (Some attackData) None) = Fin 60
   \<and> from_key (getAnimationKeys 1000 (Some attack) (Some attackData) None) \<noteq> Fin 100
   \<and> map_of attackData 60 = Some [''head'' \<mapsto> \<lparr>x = Fin 10, y = Fin 5, rotation = Fin 0\<rparr>]
   \<and> map_sum id (\<lambda>m. m ''head'')
         (getAnimationValues exampleAnimations 1000 1000 (Some attack) None [''head''])
       = Inr (Some \<lparr>x = Fin 0, y = Fin 0, rotation = Fin 0\<rparr>)
   \<and> map_sum id (\<lambda>m. m ''head'')
         (getAnimationValues exampleAnimations 1000 1000 (Some attack) None [''head''])
       \<noteq> Inr (Some \<lparr>x = Fin 10, y = Fin 5, rotation = Fin 0\<rparr>)"
  by (simp add: engine_defs exampleAnimations_def attack_def attackData_def)

section \<open>Missing keyframe tables\<close>

text \<open>
  With the current animation's table missing, every call with a requested part throws. With
  the table present, a part without an entry under \<open>from\<close> and \<open>to\<close> gets the neutral value
  when nothing is blended in from the previous animation and the blend factor is finite.
\<close>

lemma missing_table_always_throws:
  assumes "animations (name a) = None" and "returnKeys \<noteq> []"
  shows "getAnimationValues animations now now' (Some a) oldAnimation returnKeys = Inl TypeError"
proof -
  obtain k where k: "k \<in> set returnKeys" using assms(2) by (cases returnKeys) auto
  have new: "calculateAnimatedValues now' f t pr (Some a) None returnKeys (Some New) None old
             = Inl TypeError" for f t pr old
    using k by (auto simp: calculateAnimatedValues_def returnKeysLoop_result animatedPart_isl)
  have "e = TypeError" for e by (cases e) simp
  then show ?thesis
    using assms
    by (simp add: getAnimationValues_def Let_def new split: sum.splits)
qed

lemma blendValues_empty:
  assumes "isFin t"
  shows "blendValues emptyValues emptyValues t = emptyValues"
proof -
  obtain r where "t = Fin r" using assms isFin_Fin by blast
  then show ?thesis by (simp add: blendValues_def emptyValues_def jsub_def)
qed

lemma missing_part_is_neutral:
  assumes "animations (name a) = Some d" and "part \<in> set returnKeys"
    and "\<not> (from_key (getAnimationKeys now (Some a) (Some d) None) = Fin 0
            \<and> isOldAnimationCanceled now' oldAnimation)"
    and "partAt (Some d) (from_key (getAnimationKeys now (Some a) (Some d) None)) part
         = Inr emptyValues"
    and "partAt (Some d) (to_key (getAnimationKeys now (Some a) (Some d) None)) part
         = Inr emptyValues"
    and "isFin (calculateProgressBetweenKeys
                  (from_key (getAnimationKeys now (Some a) (Some d) None))
                  (to_key (getAnimationKeys now (Some a) (Some d) None))
                  (progress (getAnimationKeys now (Some a) (Some d) None)))"
  shows "map_sum id (\<lambda>m. m part)
           (getAnimationValues animations now now' (Some a) oldAnimation returnKeys)
         = Inr (Some emptyValues)"
proof -
  have ne: "returnKeys \<noteq> []" using assms(2) by auto
  have pass: "calculateAnimatedValues now' f t pr oldAnimation D returnKeys (Some Old)
                (Some (from_key (getAnimationKeys now (Some a) (Some d) None))) None
              = Inr Map.empty" for f t pr D
    using assms(3) by (simp add: calculateAnimatedValues_def)
  have "getAnimationValues animations now now' (Some a) oldAnimation returnKeys
        = calculateAnimatedValues now' (from_key (getAnimationKeys now (Some a) (Some d) None))
            (to_key (getAnimationKeys now (Some a) (Some d) None))
            (progress (getAnimationKeys now (Some a) (Some d) None))
            (Some a) (Some d) returnKeys (Some New) None (Some Map.empty)"
    unfolding getAnimationValues_def Let_def using ne assms(1) by (simp add: pass)
  then show ?thesis
    using assms(4,5,6)
    by (simp add: calculateAnimatedValues_at [OF assms(2)] animatedPart_present blendValues_empty)
qed

text \<open>
  C1. A call whose keyframe table is missing is said to raise nothing and to return
  \<open>{x: 0, y: 0, rotation: 0}\<close> for every requested part. The resolver does return its
  neutral \<open>{0, 0, 0}\<close> for the missing table, but the pass that follows reads
  \<open>animationData[from]\<close> on the missing table, which throws.
\<close>

theorem missing_table_throws:
  "getAnimationValues exampleAnimations 500 500 (Some unknownAnimation) None [''head'']
     = Inl TypeError"
  by (simp add: engine_defs exampleAnimations_def unknownAnimation_def)

section \<open>The delay of the next tick\<close>

text \<open>
  C9, as the code has it. The delay that \<open>update\<close> passes to \<open>setTimeout\<close> is the tick
  interval \<open>1000 / tickRate\<close> minus the overrun \<open>now - start - time\<close>, where \<open>time\<close> has
  been advanced by one interval. The code does not clamp it: the delay is negative exactly
  when the overrun exceeds the interval.
\<close>

theorem next_tick_delay:
  "snd (update now0 now1 g) = loopTimeout g - (now1 - start g - time (fst (update now0 now1 g)))
   \<and> time (fst (update now0 now1 g)) = time g + loopTimeout g
   \<and> (snd (update now0 now1 g) < 0)
       = (loopTimeout g < now1 - start g - time (fst (update now0 now1 g)))
   \<and> loopTimeout (constructor t0 t1) = 1000 / tickRate (constructor t0 t1)
   \<and> tickRate (constructor t0 t1) = 60
   \<and> loopTimeout (fst (update now0 now1 g)) = loopTimeout g
   \<and> tickRate (fst (update now0 now1 g)) = tickRate g
   \<and> start (fst (update now0 now1 g)) = start g"
  by (auto simp: update_def constructor_def Let_def)

text \<open>A tick on time, and a first tick that took 100 ms.\<close>

theorem next_tick_delay_witness:
  "snd (update 1010 1012 (fst (update 1000 1001 (constructor 0 1000)))) = 38
   \<and> (snd (update 0 100 (constructor 0 0)) < 0)
   \<and> loopTimeout (constructor 0 0) < 100 - start (constructor 0 0)
        - time (fst (update 0 100 (constructor 0 0)))"
  using next_tick_delay [of 0 100 "constructor 0 0" 0 0]
    next_tick_delay [of 1010 1012 "fst (update 1000 1001 (constructor 0 1000))" 0 0]
  by (simp add: update_def constructor_def Let_def)

text \<open>After a tick of 100 ms the delay passed to the timer is negative.\<close>

theorem next_tick_delay_counterexample:
  "snd (update 0 100 (constructor 0 0)) = - (200 / 3) \<and> snd (update 0 100 (constructor 0 0)) < 0"
  by (simp add: update_def constructor_def Let_def)

end
